theory Spec2Isabelle
  imports Complex_Main "HOL-Library.Log_Nat"
begin

text \<open>
  A shallow embedding of the two functions of \<open>src/app/api/analyze/route.ts\<close> that
  decide anything: \<open>analyzeWithFallback\<close>, the rule-based analyzer of a message, and
  \<open>parseAnalysisResponse\<close>, the parser of a model's answer into the result structure.
  The definitions follow the source line by line; the functions of the runtime they call
  (\<open>toLowerCase\<close>, \<open>includes\<close>, \<open>trim\<close>, \<open>split\<close>, the regular expressions,
  \<open>JSON.parse\<close>) are modelled beside them.
\<close>

section \<open>Strings of the runtime\<close>

text \<open>
  The program is TypeScript; its strings are sequences of UTF-16 code units. The texts
  the two functions receive are modelled as HOL strings, that is, as sequences of code
  units in the range 0..255 (ASCII and the Latin-1 supplement). Every keyword, label and
  pattern of the program is ASCII. On this range \<open>String.prototype.toLowerCase\<close>
  changes \<open>A\<close>..\<open>Z\<close> and the Latin-1 capitals 0xC0..0xDE (without the
  multiplication sign 0xD7), each by adding 32. A string that \<open>JSON.parse\<close> decodes
  from such a text may still hold any code unit, written as an escape \<open>\uXXXX\<close>; the
  values below have a place for it.
\<close>

definition toLowerCase_char :: "char \<Rightarrow> char" where
  "toLowerCase_char c =
     (let n = (of_char c :: nat)
      in if (65 \<le> n \<and> n \<le> 90) \<or> (192 \<le> n \<and> n \<le> 222 \<and> n \<noteq> 215)
         then char_of (n + 32) else c)"

definition toLowerCase :: "string \<Rightarrow> string" where
  "toLowerCase s = map toLowerCase_char s"

text \<open>\<open>s.startsWith(p)\<close> and \<open>s.includes(k)\<close> (\<open>includes\<close> is a keyword of Isabelle, hence the suffix).\<close>

fun startsWith :: "string \<Rightarrow> string \<Rightarrow> bool" where
  "startsWith s [] = True"
| "startsWith [] (p # ps) = False"
| "startsWith (c # cs) (p # ps) = (c = p \<and> startsWith cs ps)"

fun includes_str :: "string \<Rightarrow> string \<Rightarrow> bool" where
  "includes_str [] k = (k = [])"
| "includes_str (c # cs) k = (startsWith (c # cs) k \<or> includes_str cs k)"

text \<open>
  A regular expression with the flag \<open>i\<close> (and without \<open>u\<close>) compares two code units
  after \<open>Canonicalize\<close>: the code unit of the upper-case form when that form is a single
  code unit, except that a code unit of 128 or more is never mapped below 128. The
  upper-case forms of 0xB5 and 0xFF lie outside Latin-1 (U+039C, U+0178), and that of
  0xDF is two code units long, so 0xDF stays. The result is a code unit value.
\<close>

definition canonicalize :: "char \<Rightarrow> nat" where
  "canonicalize c =
     (let n = (of_char c :: nat)
      in if 97 \<le> n \<and> n \<le> 122 then n - 32
         else if 224 \<le> n \<and> n \<le> 254 \<and> n \<noteq> 247 then n - 32
         else if n = 255 then 376
         else if n = 181 then 924
         else n)"

text \<open>The literal pattern \<open>p\<close> matched at the start of \<open>s\<close> under the flag \<open>i\<close>.\<close>

fun matches_at_i :: "string \<Rightarrow> string \<Rightarrow> bool" where
  "matches_at_i s [] = True"
| "matches_at_i [] (p # ps) = False"
| "matches_at_i (c # cs) (p # ps) = (canonicalize c = canonicalize p \<and> matches_at_i cs ps)"

text \<open>\<open>/p/i.test(s)\<close> for a literal \<open>p\<close>: the pattern matches at some position.\<close>

fun test_i :: "string \<Rightarrow> string \<Rightarrow> bool" where
  "test_i [] p = (p = [])"
| "test_i (c # cs) p = (matches_at_i (c # cs) p \<or> test_i cs p)"

text \<open>\<open>/p1|p2|...|pn/i.test(s)\<close> for literal alternatives.\<close>

definition test_alternatives_i :: "string list \<Rightarrow> string \<Rightarrow> bool" where
  "test_alternatives_i alts s = list_ex (\<lambda>p. test_i s p) alts"

text \<open>The decimal digits of a non-negative integer, as the template literal prints it.\<close>

fun string_of_nat :: "nat \<Rightarrow> string" where
  "string_of_nat n =
     (if n < 10 then [char_of (48 + n)]
      else string_of_nat (n div 10) @ [char_of (48 + n mod 10)])"

declare string_of_nat.simps [simp del]

section \<open>Numbers of the runtime\<close>

text \<open>
  A number of the runtime is an IEEE 754 double: a finite value, which is a rational, or
  one of the two infinities (no operation of the two functions yields \<open>NaN\<close>). The sign
  of a zero is not kept. A negative zero comes from the literal \<open>-0\<close> only; it is falsy
  as the positive one is, so \<open>||\<close> replaces it by its default and it is never the value
  of a field of a result.
\<close>

datatype double = Finite rat | PlusInfinity | MinusInfinity

text \<open>
  The Number value for a mathematical value, as the runtime computes it for a number
  literal and for the digits given to \<open>parseInt\<close>: the nearest double, a tie going to
  the even significand, and an infinity from \<open>2^1024\<close> on. (The language standard lets
  an implementation ignore the decimal digits after the twentieth; V8 rounds the exact
  value, which is what is modelled.)

  \<open>pow2 k\<close> is \<open>2^k\<close> for an integer \<open>k\<close>. \<open>binary_exponent a\<close> is the \<open>e\<close>
  with \<open>2^e \<le> a < 2^(e+1)\<close> for a positive \<open>a\<close>. The doubles around \<open>a\<close> are
  the multiples of \<open>2^(e-52)\<close>, and of \<open>2^(-1074)\<close> in the subnormal range below
  \<open>2^(-1022)\<close>; \<open>round_to_quantum a\<close> is the nearest such multiple.
\<close>

definition pow2 :: "int \<Rightarrow> rat" where
  "pow2 k = (if 0 \<le> k then 2 ^ nat k else 1 / 2 ^ nat (- k))"

definition round_half_even :: "rat \<Rightarrow> int" where
  "round_half_even m =
     (let f = \<lfloor>m\<rfloor>; r = m - of_int f
      in if r < 1 / 2 then f
         else if 1 / 2 < r then f + 1
         else if even f then f else f + 1)"

definition binary_exponent :: "rat \<Rightarrow> int" where
  "binary_exponent a =
     (if 1 \<le> a then bitlen \<lfloor>a\<rfloor> - 1
      else (let k = bitlen \<lfloor>1 / a\<rfloor> - 1
            in if a = pow2 (- k) then - k else - k - 1))"

definition quantum_exponent :: "rat \<Rightarrow> int" where
  "quantum_exponent a =
     (let e = binary_exponent a in if - 1022 \<le> e then e - 52 else - 1074)"

definition round_to_quantum :: "rat \<Rightarrow> rat" where
  "round_to_quantum a =
     of_int (round_half_even (a / pow2 (quantum_exponent a))) * pow2 (quantum_exponent a)"

definition to_double :: "rat \<Rightarrow> double" where
  "to_double q =
     (if q = 0 then Finite 0
      else (let v = round_to_quantum \<bar>q\<bar>
            in if 1024 \<le> binary_exponent v then (if q < 0 then MinusInfinity else PlusInfinity)
               else Finite (if q < 0 then - v else v)))"

section \<open>Values and the result structure\<close>

text \<open>
  The values \<open>JSON.parse\<close> can produce. A finite number is \<open>JNum\<close> with its value;
  the infinities, which \<open>JSON.parse\<close> returns for a literal beyond the range of the
  doubles, are \<open>JInfinity\<close> and \<open>JNegInfinity\<close>. A string whose code units are all
  below 256 is \<open>JStr\<close>; a string with a larger code unit, which only an escape
  \<open>\uXXXX\<close> can produce from a text of the modelled range, is \<open>JWide\<close> with the list
  of its code units. An object keeps its members in the order of the text, each name as
  the list of its code units.

  At run time a field of \<open>AnalysisResult\<close> holds whatever value was stored in it: the
  interface annotates \<open>string\<close> and \<open>number\<close>, but \<open>parseAnalysisResponse\<close> stores
  the parsed values unchecked. So the fields are values; \<open>None\<close> is \<open>undefined\<close>
  (for the two optional fields: unset).
\<close>

datatype json =
    JNull
  | JBool bool
  | JNum rat
  | JInfinity
  | JNegInfinity
  | JStr string
  | JWide "nat list"
  | JArr "json list"
  | JObj "(nat list \<times> json) list"

text \<open>The value that holds a number, and the one that holds a string given by its code units.\<close>

definition number :: "double \<Rightarrow> json" where
  "number d = (case d of Finite q \<Rightarrow> JNum q | PlusInfinity \<Rightarrow> JInfinity | MinusInfinity \<Rightarrow> JNegInfinity)"

definition code_units :: "string \<Rightarrow> nat list" where
  "code_units s = map of_char s"

definition string_value :: "nat list \<Rightarrow> json" where
  "string_value units =
     (if list_all (\<lambda>u. u < 256) units then JStr (map char_of units) else JWide units)"

record AnalysisResult =
  riskLevel :: json
  reason :: json
  businessImpact :: json
  recommendedAction :: json
  suggestedReply :: "json option"
  leadQualityScore :: "json option"
  businessInsight :: json

section \<open>The rule-based analyzer: \<open>analyzeWithFallback\<close>\<close>

definition fraudKeywords :: "string list" where
  "fraudKeywords = [''urgent'', ''wire'', ''bank account'', ''password'', ''verify'',
     ''suspended'', ''click here'', ''act now'', ''limited time'']"

definition salesKeywords :: "string list" where
  "salesKeywords = [''interested'', ''quote'', ''pricing'', ''demo'', ''meeting'',
     ''budget'', ''looking for'', ''need'']"

definition complaintKeywords :: "string list" where
  "complaintKeywords = [''disappointed'', ''unhappy'', ''refund'', ''complaint'',
     ''terrible'', ''awful'', ''never again'']"

text \<open>\<open>keywords.some(keyword => lowerMessage.includes(keyword))\<close>\<close>

definition some_included :: "string list \<Rightarrow> string \<Rightarrow> bool" where
  "some_included keywords lowerMessage = list_ex (\<lambda>keyword. includes_str lowerMessage keyword) keywords"

definition isFraud :: "string \<Rightarrow> bool" where
  "isFraud message = some_included fraudKeywords (toLowerCase message)"

definition isSales :: "string \<Rightarrow> bool" where
  "isSales message = some_included salesKeywords (toLowerCase message)"

definition isComplaint :: "string \<Rightarrow> bool" where
  "isComplaint message = some_included complaintKeywords (toLowerCase message)"

text \<open>\<open>/https?:\/\//.test(message)\<close>: no flag, so the match is case-sensitive.\<close>

definition hasUrl :: "string \<Rightarrow> bool" where
  "hasUrl message = (includes_str message ''http://'' \<or> includes_str message ''https://'')"

text \<open>\<open>/urgent|immediately|asap|right now|act now/i.test(message)\<close>\<close>

definition hasUrgency :: "string \<Rightarrow> bool" where
  "hasUrgency message =
     test_alternatives_i [''urgent'', ''immediately'', ''asap'', ''right now'', ''act now''] message"

text \<open>\<open>/password|account|credit card|ssn|social security/i.test(message)\<close>\<close>

definition requestsInfo :: "string \<Rightarrow> bool" where
  "requestsInfo message =
     test_alternatives_i [''password'', ''account'', ''credit card'', ''ssn'', ''social security''] message"

datatype risk = Safe | Suspicious | HighRiskFraud

fun risk_string :: "risk \<Rightarrow> string" where
  "risk_string Safe = ''Safe''"
| "risk_string Suspicious = ''Suspicious''"
| "risk_string HighRiskFraud = ''High Risk Fraud''"

definition classify :: "string \<Rightarrow> risk" where
  "classify message =
     (if (isFraud message \<or> (hasUrgency message \<and> requestsInfo message)) \<and> hasUrl message
      then HighRiskFraud
      else if hasUrgency message \<or> requestsInfo message \<or> (hasUrl message \<and> isFraud message)
      then Suspicious
      else Safe)"

definition reason_text :: "risk \<Rightarrow> string" where
  "reason_text r =
     (case r of
        HighRiskFraud \<Rightarrow> ''Message contains multiple fraud indicators: urgency pressure, requests for sensitive information, and external links. Pattern consistent with phishing or social engineering attacks.''
      | Suspicious \<Rightarrow> ''Message contains potential risk indicators such as urgency language, requests for information, or suspicious links. Requires careful verification before responding.''
      | Safe \<Rightarrow> ''Message appears to be a normal business communication with no obvious risk indicators.'')"

definition businessImpact_text :: "risk \<Rightarrow> bool \<Rightarrow> bool \<Rightarrow> string" where
  "businessImpact_text r complaint sales =
     (if r = HighRiskFraud then ''High risk of financial loss, data breach, or security compromise. Could lead to unauthorized access to systems, financial accounts, or sensitive business information.''
      else if r = Suspicious then ''Moderate risk of security incident or fraud. Could potentially lead to data exposure or financial loss if not properly verified.''
      else if complaint then ''Customer satisfaction and reputation risk. Requires prompt attention to prevent escalation and negative reviews.''
      else if sales then ''Potential revenue opportunity. Timely response could lead to new business.''
      else ''Minimal risk to business operations.'')"

definition recommendedAction_text :: "risk \<Rightarrow> bool \<Rightarrow> bool \<Rightarrow> string" where
  "recommendedAction_text r complaint sales =
     (if r = HighRiskFraud then ''DO NOT RESPOND. Do not click any links. Report to IT security team immediately. Block sender and mark as spam.''
      else if r = Suspicious then ''Verify sender identity through separate communication channel before responding. Do not click links or provide information. Consult security team if uncertain.''
      else if complaint then ''Respond within 24 hours. Acknowledge issue, apologize, and offer resolution. Escalate to customer service manager if needed.''
      else if sales then ''Follow up within 24-48 hours. Qualify lead by understanding needs, budget, and timeline. Schedule discovery call if appropriate.''
      else ''Respond professionally within 1-2 business days. Address inquiry directly and provide requested information.'')"

text \<open>The three reply templates; \<open>nl\<close> is the line feed the template literals write as \<open>\n\<close>.\<close>

definition nl :: string where
  "nl = [CHR 0x0A]"

definition salesReply :: string where
  "salesReply =
     ''Thank you for your interest in our services. I'd be happy to discuss how we can help meet your needs.'' @ nl @ nl
     @ ''Could you provide more details about:'' @ nl
     @ ''- Your specific requirements'' @ nl
     @ ''- Timeline for implementation'' @ nl
     @ ''- Budget considerations'' @ nl @ nl
     @ ''I'm available for a brief call this week to explore further. Please let me know your availability.'' @ nl @ nl
     @ ''Best regards''"

definition complaintReply :: string where
  "complaintReply =
     ''Thank you for bringing this to our attention. I sincerely apologize for any inconvenience you've experienced.'' @ nl @ nl
     @ ''We take these matters seriously and would like to resolve this as quickly as possible. Could you please provide additional details so we can investigate and address your concerns?'' @ nl @ nl
     @ ''I'm personally committed to ensuring we find a satisfactory resolution.'' @ nl @ nl
     @ ''Best regards''"

definition genericReply :: string where
  "genericReply =
     ''Thank you for reaching out.'' @ nl @ nl
     @ ''[Address the specific inquiry or request here]'' @ nl @ nl
     @ ''Please let me know if you need any additional information.'' @ nl @ nl
     @ ''Best regards''"

definition select_reply :: "risk \<Rightarrow> bool \<Rightarrow> bool \<Rightarrow> string option" where
  "select_reply r sales complaint =
     (if r = Safe \<and> sales then Some salesReply
      else if complaint then Some complaintReply
      else if r = Safe then Some genericReply
      else None)"

definition lead_score :: "string \<Rightarrow> bool \<Rightarrow> risk \<Rightarrow> nat" where
  "lead_score message sales r =
     (let lowerMessage = toLowerCase message in
      if sales \<and> r = Safe then
        min (5
             + (if includes_str lowerMessage ''budget'' then 2 else 0)
             + (if includes_str lowerMessage ''timeline'' \<or> includes_str lowerMessage ''when'' then 1 else 0)
             + (if includes_str lowerMessage ''demo'' \<or> includes_str lowerMessage ''meeting'' then 1 else 0)
             + (if length message > 200 then 1 else 0)) 10
      else 0)"

definition businessInsight_text :: "risk \<Rightarrow> bool \<Rightarrow> bool \<Rightarrow> nat \<Rightarrow> string" where
  "businessInsight_text r sales complaint score =
     (if sales then ''This appears to be a sales opportunity. Lead quality: '' @ string_of_nat score
                    @ ''/10. Priority response recommended to maximize conversion potential.''
      else if complaint then ''Customer retention risk. Immediate empathetic response required. This is an opportunity to demonstrate excellent customer service and prevent negative publicity.''
      else if r = HighRiskFraud then ''Security threat detected. This message follows common fraud patterns. Employee training on security awareness is recommended to prevent future incidents.''
      else if r = Suspicious then ''Exercise caution. Verify authenticity before engagement. Implement sender verification protocols for similar messages.''
      else ''Standard business communication. Respond professionally and maintain service level standards for response time.'')"

text \<open>
  \<open>analyzeWithFallback(message, senderInfo?, context?)\<close>. The function is \<open>async\<close>
  and awaits nothing: the value below is the one its promise resolves to.
\<close>

definition analyzeWithFallback :: "string \<Rightarrow> string option \<Rightarrow> string option \<Rightarrow> AnalysisResult" where
  "analyzeWithFallback message senderInfo context =
     (let r = classify message;
          sales = isSales message;
          complaint = isComplaint message;
          score = lead_score message sales r
      in \<lparr> riskLevel = JStr (risk_string r),
           reason = JStr (reason_text r),
           businessImpact = JStr (businessImpact_text r complaint sales),
           recommendedAction = JStr (recommendedAction_text r complaint sales),
           suggestedReply = map_option JStr (select_reply r sales complaint),
           leadQualityScore = Some (JNum (of_nat score)),
           businessInsight = JStr (businessInsight_text r sales complaint score) \<rparr>)"

section \<open>The runtime's \<open>JSON.parse\<close>\<close>

text \<open>
  \<open>JSON.parse\<close> belongs to the runtime, not to the repository. It is modelled after
  the JSON grammar (ECMA-404) in two stages: the text is cut into tokens, and the tokens
  are read by recursive descent. A failure (the runtime's \<open>SyntaxError\<close>) is a value.
  The token of a string literal carries the code units the literal denotes, that of a
  number literal the double it denotes.
\<close>

datatype error = SyntaxError | TypeError

datatype token =
    LBrace | RBrace | LBracket | RBracket | Colon | Comma
  | TString "nat list" | TNumber double | TTrue | TFalse | TNull

definition is_json_ws :: "char \<Rightarrow> bool" where
  "is_json_ws c = (c = CHR 0x20 \<or> c = CHR 0x09 \<or> c = CHR 0x0A \<or> c = CHR 0x0D)"

definition is_digit :: "char \<Rightarrow> bool" where
  "is_digit c = (48 \<le> (of_char c :: nat) \<and> (of_char c :: nat) \<le> 57)"

definition digit_val :: "char \<Rightarrow> nat" where
  "digit_val c = of_char c - 48"

fun nat_of_digits :: "nat \<Rightarrow> string \<Rightarrow> nat" where
  "nat_of_digits acc [] = acc"
| "nat_of_digits acc (c # cs) = nat_of_digits (10 * acc + digit_val c) cs"

definition hex_val :: "char \<Rightarrow> nat option" where
  "hex_val c =
     (let n = (of_char c :: nat)
      in if 48 \<le> n \<and> n \<le> 57 then Some (n - 48)
         else if 65 \<le> n \<and> n \<le> 70 then Some (n - 55)
         else if 97 \<le> n \<and> n \<le> 102 then Some (n - 87)
         else None)"

definition hex4 :: "char \<Rightarrow> char \<Rightarrow> char \<Rightarrow> char \<Rightarrow> nat option" where
  "hex4 a b c d =
     (case (hex_val a, hex_val b, hex_val c, hex_val d) of
        (Some x, Some y, Some z, Some w) \<Rightarrow> Some (((x * 16 + y) * 16 + z) * 16 + w)
      | _ \<Rightarrow> None)"

text \<open>
  The two-character escapes of a string literal: the character after the backslash and
  the character it denotes. 0x22 is the double quote, 0x5C the backslash.
\<close>

definition simple_escape :: "char \<Rightarrow> char option" where
  "simple_escape e =
     (if e = CHR 0x22 then Some (CHR 0x22)
      else if e = CHR 0x5C then Some (CHR 0x5C)
      else if e = CHR ''/'' then Some (CHR ''/'')
      else if e = CHR ''b'' then Some (CHR 0x08)
      else if e = CHR ''f'' then Some (CHR 0x0C)
      else if e = CHR ''n'' then Some (CHR 0x0A)
      else if e = CHR ''r'' then Some (CHR 0x0D)
      else if e = CHR ''t'' then Some (CHR 0x09)
      else None)"

text \<open>
  The characters of a string literal after its opening quote, up to the closing quote:
  the code units of the decoded string (accumulated in reverse) and the rest of the text.
  An escape \<open>\uXXXX\<close> denotes the code unit with that number, whatever it is. A control
  character (below 0x20) may not stand unescaped.
\<close>

fun lex_string :: "nat list \<Rightarrow> string \<Rightarrow> (nat list \<times> string) option" where
  "lex_string acc [] = None"
| "lex_string acc (c # cs) =
     (if c = CHR 0x22 then Some (rev acc, cs)
      else if c = CHR 0x5C then
        (case cs of
           [] \<Rightarrow> None
         | e # cs' \<Rightarrow>
             if e = CHR ''u'' then
               (case cs' of
                  h1 # h2 # h3 # h4 # cs'' \<Rightarrow>
                    (case hex4 h1 h2 h3 h4 of
                       None \<Rightarrow> None
                     | Some n \<Rightarrow> lex_string (n # acc) cs'')
                | _ \<Rightarrow> None)
             else
               (case simple_escape e of
                  None \<Rightarrow> None
                | Some d \<Rightarrow> lex_string (of_char d # acc) cs'))
      else if (of_char c :: nat) < 32 then None
      else lex_string (of_char c # acc) cs)"

text \<open>
  A number literal at the start of the text: an optional minus, an integer part without
  a leading zero (unless it is 0), an optional fraction, an optional exponent. Each part
  returns its value and the rest of the text; \<open>lex_number\<close> returns the double for the
  mathematical value of the whole literal.
\<close>

definition lex_int_part :: "string \<Rightarrow> (nat \<times> string) option" where
  "lex_int_part cs =
     (let ip = takeWhile is_digit cs
      in if ip = [] \<or> (length ip > 1 \<and> hd ip = CHR ''0'') then None
         else Some (nat_of_digits 0 ip, dropWhile is_digit cs))"

definition lex_frac_part :: "string \<Rightarrow> (rat \<times> string) option" where
  "lex_frac_part cs =
     (case cs of
        [] \<Rightarrow> Some (0, cs)
      | c # cs' \<Rightarrow>
          if c = CHR ''.'' then
            (let fp = takeWhile is_digit cs'
             in if fp = [] then None
                else Some (of_nat (nat_of_digits 0 fp) / 10 ^ length fp, dropWhile is_digit cs'))
          else Some (0, cs))"

definition lex_exp_part :: "string \<Rightarrow> (int \<times> string) option" where
  "lex_exp_part cs =
     (case cs of
        [] \<Rightarrow> Some (0, cs)
      | c # cs' \<Rightarrow>
          if c = CHR ''e'' \<or> c = CHR ''E'' then
            (let neg = (cs' \<noteq> [] \<and> hd cs' = CHR ''-'');
                 cs'' = (if cs' \<noteq> [] \<and> (hd cs' = CHR ''-'' \<or> hd cs' = CHR ''+'') then tl cs' else cs');
                 ep = takeWhile is_digit cs''
             in if ep = [] then None
                else Some (if neg then - int (nat_of_digits 0 ep) else int (nat_of_digits 0 ep),
                           dropWhile is_digit cs''))
          else Some (0, cs))"

definition scale10 :: "rat \<Rightarrow> int \<Rightarrow> rat" where
  "scale10 q e = (if 0 \<le> e then q * 10 ^ nat e else q / 10 ^ nat (- e))"

definition lex_number :: "string \<Rightarrow> (double \<times> string) option" where
  "lex_number cs =
     (let neg = (cs \<noteq> [] \<and> hd cs = CHR ''-'');
          cs1 = (if neg then tl cs else cs)
      in case lex_int_part cs1 of
           None \<Rightarrow> None
         | Some (i, cs2) \<Rightarrow>
             (case lex_frac_part cs2 of
                None \<Rightarrow> None
              | Some (f, cs3) \<Rightarrow>
                  (case lex_exp_part cs3 of
                     None \<Rightarrow> None
                   | Some (e, cs4) \<Rightarrow>
                       Some (to_double (if neg then - scale10 (of_nat i + f) e
                                        else scale10 (of_nat i + f) e), cs4))))"

text \<open>Every lexer of a literal consumes input, which is what the tokenizer's recursion needs.\<close>

lemma lex_string_shorter: "lex_string acc cs = Some (s, rest) \<Longrightarrow> length rest < length cs"
proof (induction acc cs rule: lex_string.induct)
  case (1 acc)
  then show ?case by simp
next
  case (2 acc c cs)
  show ?case
  proof (cases "c = CHR 0x22")
    case True
    with 2 show ?thesis by auto
  next
    case nq: False
    show ?thesis
    proof (cases "c = CHR 0x5C")
      case False
      with nq 2 show ?thesis by (auto split: if_splits)
    next
      case bs: True
      show ?thesis
      proof (cases cs)
        case Nil
        with bs nq 2 show ?thesis by simp
      next
        case (Cons e cs')
        show ?thesis
        proof (cases "e = CHR ''u''")
          case False
          with Cons bs nq "2.prems" obtain d where
            *: "simple_escape e = Some d" "lex_string (of_char d # acc) cs' = Some (s, rest)"
            by (auto split: option.splits)
          from "2.IH"(2)[OF nq bs Cons False *(1)] *(2)
          have "length rest < length cs'" by simp
          with Cons show ?thesis by simp
        next
          case True
          with Cons bs nq "2.prems" obtain h1 h2 h3 h4 cs'' n where
            *: "cs' = h1 # h2 # h3 # h4 # cs''" "hex4 h1 h2 h3 h4 = Some n"
               "lex_string (n # acc) cs'' = Some (s, rest)"
            by (auto split: list.splits option.splits if_splits)
          have "length rest < length cs''"
            using "2.IH"(1)[OF nq bs Cons True] * by fastforce
          with * Cons show ?thesis by simp
        qed
      qed
    qed
  qed
qed

lemma length_dropWhile_less:
  "takeWhile P xs \<noteq> [] \<Longrightarrow> length (dropWhile P xs) < length xs"
  by (cases xs) (auto split: if_splits intro: le_imp_less_Suc length_dropWhile_le)

lemma lex_int_part_shorter: "lex_int_part cs = Some (i, rest) \<Longrightarrow> length rest < length cs"
  by (auto simp: lex_int_part_def Let_def length_dropWhile_less split: if_splits)

lemma lex_frac_part_shorter: "lex_frac_part cs = Some (f, rest) \<Longrightarrow> length rest \<le> length cs"
  by (auto simp: lex_frac_part_def Let_def le_SucI length_dropWhile_le split: list.splits if_splits)

lemma lex_exp_part_shorter: "lex_exp_part cs = Some (e, rest) \<Longrightarrow> length rest \<le> length cs"
proof (cases cs)
  case Nil
  then show "lex_exp_part cs = Some (e, rest) \<Longrightarrow> ?thesis" by (simp add: lex_exp_part_def)
next
  case (Cons c cs')
  assume a: "lex_exp_part cs = Some (e, rest)"
  show ?thesis
  proof (cases "c = CHR ''e'' \<or> c = CHR ''E''")
    case False
    with a Cons show ?thesis by (auto simp: lex_exp_part_def)
  next
    case True
    define cs'' where "cs'' = (if cs' \<noteq> [] \<and> (hd cs' = CHR ''-'' \<or> hd cs' = CHR ''+'') then tl cs' else cs')"
    from a Cons True have "rest = dropWhile is_digit cs''"
      by (auto simp: lex_exp_part_def Let_def cs''_def split: if_splits)
    moreover have "length cs'' \<le> length cs'" by (simp add: cs''_def)
    moreover have "length (dropWhile is_digit cs'') \<le> length cs''" by (rule length_dropWhile_le)
    ultimately show ?thesis using Cons by simp
  qed
qed

lemma lex_number_shorter:
  assumes "lex_number cs = Some (q, rest)"
  shows "length rest < length cs"
proof -
  define cs1 where "cs1 = (if cs \<noteq> [] \<and> hd cs = CHR ''-'' then tl cs else cs)"
  from assms obtain i cs2 f cs3 e where
    s: "lex_int_part cs1 = Some (i, cs2)" "lex_frac_part cs2 = Some (f, cs3)"
       "lex_exp_part cs3 = Some (e, rest)"
    unfolding lex_number_def Let_def cs1_def
    by (auto split: option.splits)
  have "length cs1 \<le> length cs" by (simp add: cs1_def)
  with lex_int_part_shorter[OF s(1)] lex_frac_part_shorter[OF s(2)] lex_exp_part_shorter[OF s(3)]
  show ?thesis by simp
qed

text \<open>The tokens of a text; \<open>None\<close> when some character starts no token.\<close>

function tokenize :: "string \<Rightarrow> token list option" where
  "tokenize [] = Some []"
| "tokenize (c # cs) =
     (if is_json_ws c then tokenize cs
      else if c = CHR ''{'' then map_option ((#) LBrace) (tokenize cs)
      else if c = CHR ''}'' then map_option ((#) RBrace) (tokenize cs)
      else if c = CHR ''['' then map_option ((#) LBracket) (tokenize cs)
      else if c = CHR '']'' then map_option ((#) RBracket) (tokenize cs)
      else if c = CHR '':'' then map_option ((#) Colon) (tokenize cs)
      else if c = CHR '','' then map_option ((#) Comma) (tokenize cs)
      else if c = CHR 0x22 then
        (case lex_string [] cs of
           None \<Rightarrow> None
         | Some (s, rest) \<Rightarrow> map_option ((#) (TString s)) (tokenize rest))
      else if c = CHR ''-'' \<or> is_digit c then
        (case lex_number (c # cs) of
           None \<Rightarrow> None
         | Some (q, rest) \<Rightarrow> map_option ((#) (TNumber q)) (tokenize rest))
      else if startsWith (c # cs) ''true'' then map_option ((#) TTrue) (tokenize (drop 3 cs))
      else if startsWith (c # cs) ''false'' then map_option ((#) TFalse) (tokenize (drop 4 cs))
      else if startsWith (c # cs) ''null'' then map_option ((#) TNull) (tokenize (drop 3 cs))
      else None)"
  by pat_completeness auto
termination
proof (relation "measure length", goal_cases)
  case 1
  show ?case by simp
next
  case (9 c cs x2 x y)
  from 9 have "lex_string [] cs = Some (x, y)" by simp
  from lex_string_shorter[OF this] show ?case by simp
next
  case (10 c cs x2 x y)
  from 10 have "lex_number (c # cs) = Some (x, y)" by simp
  from lex_number_shorter[OF this] show ?case by simp
qed simp_all

text \<open>
  Recursive descent over the tokens: a value, the elements of an array after its opening
  bracket, the members of an object after its opening brace. Each returns the value read
  and the tokens left. The comparison of lengths before a list continues is always true
  (a value consumes at least one token, see \<open>parse_value_shorter\<close> and the two
  equations that follow it); it is written out so that the recursion is seen to end.
\<close>

function parse_value :: "token list \<Rightarrow> (json \<times> token list) option"
  and parse_elements :: "json list \<Rightarrow> token list \<Rightarrow> (json \<times> token list) option"
  and parse_members :: "(nat list \<times> json) list \<Rightarrow> token list \<Rightarrow> (json \<times> token list) option"
where
  "parse_value [] = None"
| "parse_value (t # ts) =
     (case t of
        TString units \<Rightarrow> Some (string_value units, ts)
      | TNumber d \<Rightarrow> Some (number d, ts)
      | TTrue \<Rightarrow> Some (JBool True, ts)
      | TFalse \<Rightarrow> Some (JBool False, ts)
      | TNull \<Rightarrow> Some (JNull, ts)
      | LBracket \<Rightarrow>
          (case ts of
             RBracket # ts' \<Rightarrow> Some (JArr [], ts')
           | _ \<Rightarrow> parse_elements [] ts)
      | LBrace \<Rightarrow>
          (case ts of
             RBrace # ts' \<Rightarrow> Some (JObj [], ts')
           | _ \<Rightarrow> parse_members [] ts)
      | _ \<Rightarrow> None)"
| "parse_elements acc ts =
     (case parse_value ts of
        None \<Rightarrow> None
      | Some (v, ts') \<Rightarrow>
          (case ts' of
             Comma # ts'' \<Rightarrow>
               if length ts'' < length ts then parse_elements (v # acc) ts'' else None
           | RBracket # ts'' \<Rightarrow> Some (JArr (rev (v # acc)), ts'')
           | _ \<Rightarrow> None))"
| "parse_members acc ts =
     (case ts of
        TString k # Colon # ts1 \<Rightarrow>
          (case parse_value ts1 of
             None \<Rightarrow> None
           | Some (v, ts') \<Rightarrow>
               (case ts' of
                  Comma # ts'' \<Rightarrow>
                    if length ts'' < length ts then parse_members ((k, v) # acc) ts'' else None
                | RBrace # ts'' \<Rightarrow> Some (JObj (rev ((k, v) # acc)), ts'')
                | _ \<Rightarrow> None))
      | _ \<Rightarrow> None)"
  by pat_completeness auto
termination
  by (relation "measure (\<lambda>x. case x of
            Inl ts \<Rightarrow> 2 * length ts
          | Inr (Inl (acc, ts)) \<Rightarrow> 2 * length ts + 1
          | Inr (Inr (acc, ts)) \<Rightarrow> 2 * length ts + 1)") auto

declare parse_elements.simps [simp del] parse_members.simps [simp del]

definition JSON_parse :: "string \<Rightarrow> error + json" where
  "JSON_parse text =
     (case tokenize text of
        None \<Rightarrow> Inl SyntaxError
      | Some ts \<Rightarrow>
          (case parse_value ts of
             Some (v, []) \<Rightarrow> Inr v
           | _ \<Rightarrow> Inl SyntaxError))"

text \<open>
  A value consumes at least one token. So the comparison of lengths in \<open>parse_elements\<close>
  and \<open>parse_members\<close> never fails, and both satisfy the recursion of the grammar
  without it.
\<close>

lemma parse_shorter_all:
  "(\<forall>v r. parse_value ts = Some (v, r) \<longrightarrow> length r < length ts)
   \<and> (\<forall>acc v r. parse_elements acc ts = Some (v, r) \<longrightarrow> length r < length ts)
   \<and> (\<forall>acc v r. parse_members acc ts = Some (v, r) \<longrightarrow> length r < length ts)"
proof (induction "length ts" arbitrary: ts rule: less_induct)
  case less
  have val: "length r < length ts" if "parse_value ts = Some (v, r)" for v r
  proof (cases ts)
    case Nil
    with that show ?thesis by simp
  next
    case (Cons t ts0)
    have sm: "length ts0 < length ts" using Cons by simp
    show ?thesis
    proof (cases t)
      case LBrace
      show ?thesis
      proof (cases "\<exists>ts'. ts0 = RBrace # ts'")
        case True
        with that Cons LBrace show ?thesis by auto
      next
        case False
        then have "parse_value (LBrace # ts0) = parse_members [] ts0"
          by (auto split: list.splits token.splits)
        with that Cons LBrace have "parse_members [] ts0 = Some (v, r)" by simp
        with less.hyps[OF sm] have "length r < length ts0" by blast
        with Cons show ?thesis by simp
      qed
    next
      case LBracket
      show ?thesis
      proof (cases "\<exists>ts'. ts0 = RBracket # ts'")
        case True
        with that Cons LBracket show ?thesis by auto
      next
        case False
        then have "parse_value (LBracket # ts0) = parse_elements [] ts0"
          by (auto split: list.splits token.splits)
        with that Cons LBracket have "parse_elements [] ts0 = Some (v, r)" by simp
        with less.hyps[OF sm] have "length r < length ts0" by blast
        with Cons show ?thesis by simp
      qed
    qed (use that Cons in auto)
  qed
  have el: "length r < length ts" if "parse_elements acc ts = Some (v, r)" for acc v r
  proof -
    from that obtain w ts' where pv: "parse_value ts = Some (w, ts')"
      by (subst (asm) parse_elements.simps) (auto split: option.splits)
    from val[OF pv] have l: "length ts' < length ts" .
    show ?thesis
    proof (cases ts')
      case Nil
      with that pv show ?thesis by (subst (asm) parse_elements.simps) simp
    next
      case (Cons t ts'')
      show ?thesis
      proof (cases "t = Comma")
        case True
        with that pv Cons have "length ts'' < length ts" "parse_elements (w # acc) ts'' = Some (v, r)"
          by (subst (asm) parse_elements.simps, auto split: if_splits)+
        with less.hyps[of ts''] show ?thesis by force
      next
        case False
        with that pv Cons l show ?thesis
          by (subst (asm) parse_elements.simps) (cases t; auto)
      qed
    qed
  qed
  have me: "length r < length ts" if "parse_members acc ts = Some (v, r)" for acc v r
  proof -
    from that obtain k ts1 where ts: "ts = TString k # Colon # ts1"
      by (subst (asm) parse_members.simps) (auto split: list.splits token.splits)
    with that obtain w ts' where pv: "parse_value ts1 = Some (w, ts')"
      by (subst (asm) parse_members.simps) (auto split: option.splits)
    from ts have "length ts1 < length ts" by simp
    from less.hyps[OF this] pv have l: "length ts' < length ts1" by blast
    show ?thesis
    proof (cases ts')
      case Nil
      with that ts pv show ?thesis by (subst (asm) parse_members.simps) simp
    next
      case (Cons t ts'')
      show ?thesis
      proof (cases "t = Comma")
        case True
        with that ts pv Cons have "length ts'' < length ts" "parse_members ((k, w) # acc) ts'' = Some (v, r)"
          by (subst (asm) parse_members.simps, auto split: if_splits)+
        with less.hyps[of ts''] show ?thesis by force
      next
        case False
        with that ts pv Cons l show ?thesis
          by (subst (asm) parse_members.simps) (cases t; auto)
      qed
    qed
  qed
  from val el me show ?case by blast
qed

lemma parse_value_shorter: "parse_value ts = Some (v, r) \<Longrightarrow> length r < length ts"
  using parse_shorter_all[of ts] by blast


lemma parse_elements_unguarded:
  "parse_elements acc ts =
     (case parse_value ts of
        None \<Rightarrow> None
      | Some (v, ts') \<Rightarrow>
          (case ts' of
             Comma # ts'' \<Rightarrow> parse_elements (v # acc) ts''
           | RBracket # ts'' \<Rightarrow> Some (JArr (rev (v # acc)), ts'')
           | _ \<Rightarrow> None))"
  by (subst parse_elements.simps)
     (auto split: option.splits list.splits token.splits dest!: parse_value_shorter)

lemma parse_members_unguarded:
  "parse_members acc ts =
     (case ts of
        TString k # Colon # ts1 \<Rightarrow>
          (case parse_value ts1 of
             None \<Rightarrow> None
           | Some (v, ts') \<Rightarrow>
               (case ts' of
                  Comma # ts'' \<Rightarrow> parse_members ((k, v) # acc) ts''
                | RBrace # ts'' \<Rightarrow> Some (JObj (rev ((k, v) # acc)), ts'')
                | _ \<Rightarrow> None))
      | _ \<Rightarrow> None)"
  by (subst parse_members.simps)
     (auto split: option.splits list.splits token.splits dest!: parse_value_shorter)

section \<open>The response parser: \<open>parseAnalysisResponse\<close>\<close>

text \<open>
  \<open>text.match(/\{[\s\S]*\}/)\<close>: the class \<open>[\s\S]\<close> matches every code unit and the
  star is greedy, so the match runs from the first opening brace to the last closing
  brace after it; there is no match when no closing brace follows the first opening one.
  The result is the matched text \<open>jsonMatch[0]\<close>, or \<open>None\<close> for \<open>null\<close>.
\<close>

definition match_braces :: "string \<Rightarrow> string option" where
  "match_braces text =
     (case dropWhile (\<lambda>c. c \<noteq> CHR ''{'') text of
        [] \<Rightarrow> None
      | c # rest \<Rightarrow>
          (case dropWhile (\<lambda>c. c \<noteq> CHR ''}'') (rev rest) of
             [] \<Rightarrow> None
           | d # before \<Rightarrow> Some (c # rev (d # before))))"

text \<open>
  \<open>parsed.key\<close>: the member of that name (the last one when the text repeats a key);
  \<open>undefined\<close> on an object without it and on a number, a string, a boolean or an
  array (none of the seven names is a property of their prototypes). Reading a property
  of \<open>null\<close> throws; \<open>json_path\<close> tests for \<open>null\<close> before it reads.
\<close>

fun get_prop :: "json \<Rightarrow> string \<Rightarrow> json option" where
  "get_prop (JObj members) key = map_of (rev members) (code_units key)"
| "get_prop v key = None"

text \<open>\<open>ToBoolean\<close>, and the two uses of \<open>||\<close>: with a default value, with \<open>undefined\<close>.\<close>

fun truthy :: "json \<Rightarrow> bool" where
  "truthy JNull = False"
| "truthy (JBool b) = b"
| "truthy (JNum q) = (q \<noteq> 0)"
| "truthy JInfinity = True"
| "truthy JNegInfinity = True"
| "truthy (JStr s) = (s \<noteq> [])"
| "truthy (JWide units) = (units \<noteq> [])"
| "truthy (JArr vs) = True"
| "truthy (JObj ms) = True"

definition or_default :: "json option \<Rightarrow> json \<Rightarrow> json" where
  "or_default x d = (case x of None \<Rightarrow> d | Some v \<Rightarrow> if truthy v then v else d)"

definition or_undefined :: "json option \<Rightarrow> json option" where
  "or_undefined x = (case x of None \<Rightarrow> None | Some v \<Rightarrow> if truthy v then Some v else None)"

definition result_of_parsed :: "json \<Rightarrow> AnalysisResult" where
  "result_of_parsed parsed =
     \<lparr> riskLevel = or_default (get_prop parsed ''riskLevel'') (JStr ''Unknown''),
       reason = or_default (get_prop parsed ''reason'') (JStr ''No reason provided''),
       businessImpact = or_default (get_prop parsed ''businessImpact'') (JStr ''No impact assessment provided''),
       recommendedAction = or_default (get_prop parsed ''recommendedAction'') (JStr ''No action recommended''),
       suggestedReply = or_undefined (get_prop parsed ''suggestedReply''),
       leadQualityScore = Some (or_default (get_prop parsed ''leadQualityScore'') (JNum 0)),
       businessInsight = or_default (get_prop parsed ''businessInsight'') (JStr ''No insight provided'') \<rparr>"

text \<open>
  The body of the \<open>try\<close> block: \<open>Inr (Some r)\<close> when it returns \<open>r\<close>, \<open>Inr None\<close>
  when there is no match and control leaves the block, \<open>Inl e\<close> when it throws \<open>e\<close>.
\<close>

definition json_path :: "string \<Rightarrow> error + AnalysisResult option" where
  "json_path text =
     (case match_braces text of
        None \<Rightarrow> Inr None
      | Some jsonMatch \<Rightarrow>
          (case JSON_parse jsonMatch of
             Inl e \<Rightarrow> Inl e
           | Inr parsed \<Rightarrow>
               if parsed = JNull then Inl TypeError else Inr (Some (result_of_parsed parsed))))"

text \<open>
  The white space of \<open>String.prototype.trim\<close> (and of \<open>\s\<close>) among the code units
  below 256: tab, line feed, vertical tab, form feed, carriage return, space, and the
  no-break space 0xA0.
\<close>

definition is_space :: "char \<Rightarrow> bool" where
  "is_space c = (c = CHR 0x09 \<or> c = CHR 0x0A \<or> c = CHR 0x0B \<or> c = CHR 0x0C \<or> c = CHR 0x0D
                 \<or> c = CHR 0x20 \<or> c = CHR 0xA0)"

definition trim :: "string \<Rightarrow> string" where
  "trim s = rev (dropWhile is_space (rev (dropWhile is_space s)))"

text \<open>
  \<open>text.split('\n')\<close>: the pieces between line feeds; an empty text gives one empty
  piece. The list is never empty, so the first case of the inner distinction is not reached.
\<close>

fun split_lines :: "string \<Rightarrow> string list" where
  "split_lines [] = [[]]"
| "split_lines (c # cs) =
     (if c = CHR 0x0A then [] # split_lines cs
      else (case split_lines cs of
              [] \<Rightarrow> [[c]]
            | l # ls \<Rightarrow> (c # l) # ls))"

text \<open>\<open>s.replace(/^label/i, '')\<close> for a literal label: the matched prefix is removed.\<close>

definition remove_label :: "string \<Rightarrow> string \<Rightarrow> string" where
  "remove_label label s = (if matches_at_i s label then drop (length label) s else s)"

text \<open>
  \<open>s.replace(/^Suggested Reply[^:]*:/i, '')\<close>: after the label, everything up to and
  including the first colon is removed; without a colon nothing matches and \<open>s\<close> stays.
\<close>

definition remove_reply_label :: "string \<Rightarrow> string" where
  "remove_reply_label s =
     (if matches_at_i s ''Suggested Reply'' then
        (case dropWhile (\<lambda>c. c \<noteq> CHR '':'') (drop (length ''Suggested Reply'') s) of
           [] \<Rightarrow> s
         | colon # rest \<Rightarrow> rest)
      else s)"

text \<open>
  \<open>s.match(/(\d+)/)\<close>: the first maximal run of digits, \<open>None\<close> when \<open>s\<close> has no digit.
  \<open>parseInt\<close> of such a run is the double for its decimal value: the value itself below
  \<open>2^53\<close>, a rounded one above, and \<open>Infinity\<close> for a run of some 309 digits or more.
\<close>

definition first_digits :: "string \<Rightarrow> string option" where
  "first_digits s =
     (case takeWhile is_digit (dropWhile (\<lambda>c. \<not> is_digit c) s) of
        [] \<Rightarrow> None
      | d # ds \<Rightarrow> Some (d # ds))"

definition parseInt :: "string \<Rightarrow> double" where
  "parseInt ds = to_double (of_nat (nat_of_digits 0 ds))"

text \<open>The values of \<open>currentField\<close>; \<open>None\<close> is the empty string it starts with.\<close>

datatype field =
    F_riskLevel | F_reason | F_businessImpact | F_recommendedAction
  | F_suggestedReply | F_leadQualityScore | F_businessInsight

text \<open>
  \<open>result[key]\<close> for \<open>key in result\<close>: the five string fields are always present, the
  two optional ones only once they were assigned.
\<close>

fun get_field :: "AnalysisResult \<Rightarrow> field \<Rightarrow> json option" where
  "get_field r F_riskLevel = Some (riskLevel r)"
| "get_field r F_reason = Some (reason r)"
| "get_field r F_businessImpact = Some (businessImpact r)"
| "get_field r F_recommendedAction = Some (recommendedAction r)"
| "get_field r F_suggestedReply = suggestedReply r"
| "get_field r F_leadQualityScore = leadQualityScore r"
| "get_field r F_businessInsight = Some (businessInsight r)"

fun set_field :: "AnalysisResult \<Rightarrow> field \<Rightarrow> json \<Rightarrow> AnalysisResult" where
  "set_field r F_riskLevel v = r\<lparr>riskLevel := v\<rparr>"
| "set_field r F_reason v = r\<lparr>reason := v\<rparr>"
| "set_field r F_businessImpact v = r\<lparr>businessImpact := v\<rparr>"
| "set_field r F_recommendedAction v = r\<lparr>recommendedAction := v\<rparr>"
| "set_field r F_suggestedReply v = r\<lparr>suggestedReply := Some v\<rparr>"
| "set_field r F_leadQualityScore v = r\<lparr>leadQualityScore := Some v\<rparr>"
| "set_field r F_businessInsight v = r\<lparr>businessInsight := v\<rparr>"

text \<open>
  \<open>current + added\<close> for a string \<open>current\<close>; \<open>None\<close> when \<open>current\<close> is no string.
\<close>

fun append_string :: "json \<Rightarrow> string \<Rightarrow> json option" where
  "append_string (JStr s) added = Some (JStr (s @ added))"
| "append_string (JWide units) added = Some (JWide (units @ code_units added))"
| "append_string v added = None"

text \<open>
  The last branch of the loop body, for a line that carries no label: the text is added
  to the field under the cursor. In this path \<open>suggestedReply\<close> is unset or a non-empty
  string (see \<open>line_shape\<close> below), so \<open>result.suggestedReply || ''\<close> is that string,
  or the empty one. A field that holds no string is left as it is
  (\<open>typeof current === 'string'\<close>).
\<close>

definition continue_field :: "field \<Rightarrow> AnalysisResult \<Rightarrow> string \<Rightarrow> AnalysisResult" where
  "continue_field currentField result trimmed =
     (if currentField = F_suggestedReply then
        result\<lparr>suggestedReply :=
          append_string (case suggestedReply result of
                           Some (JStr s) \<Rightarrow> JStr s | Some (JWide units) \<Rightarrow> JWide units | _ \<Rightarrow> JStr [])
                        ([CHR 0x0A] @ trimmed)\<rparr>
      else
        (case get_field result currentField of
           None \<Rightarrow> result
         | Some current \<Rightarrow>
             (case append_string current ('' '' @ trimmed) of
                None \<Rightarrow> result
              | Some v \<Rightarrow> set_field result currentField v)))"

text \<open>One turn of the loop over the lines: the cursor and the result before, and after.\<close>

definition scan_line :: "field option \<times> AnalysisResult \<Rightarrow> string \<Rightarrow> field option \<times> AnalysisResult" where
  "scan_line state line =
     (let currentField = fst state; result = snd state; trimmed = trim line
      in if matches_at_i trimmed ''Risk Level:'' then
           (Some F_riskLevel, result\<lparr>riskLevel := JStr (trim (remove_label ''Risk Level:'' trimmed))\<rparr>)
         else if matches_at_i trimmed ''Reason:'' then
           (Some F_reason, result\<lparr>reason := JStr (trim (remove_label ''Reason:'' trimmed))\<rparr>)
         else if matches_at_i trimmed ''Business Impact:'' then
           (Some F_businessImpact,
            result\<lparr>businessImpact := JStr (trim (remove_label ''Business Impact:'' trimmed))\<rparr>)
         else if matches_at_i trimmed ''Recommended Action:'' then
           (Some F_recommendedAction,
            result\<lparr>recommendedAction := JStr (trim (remove_label ''Recommended Action:'' trimmed))\<rparr>)
         else if matches_at_i trimmed ''Suggested Reply'' then
           (let reply = trim (remove_reply_label trimmed)
            in (Some F_suggestedReply,
                if reply \<noteq> [] then result\<lparr>suggestedReply := Some (JStr reply)\<rparr> else result))
         else if matches_at_i trimmed ''Lead Quality Score'' then
           (Some F_leadQualityScore,
            case first_digits trimmed of
              None \<Rightarrow> result
            | Some ds \<Rightarrow> result\<lparr>leadQualityScore := Some (number (parseInt ds))\<rparr>)
         else if matches_at_i trimmed ''Business Insight:'' then
           (Some F_businessInsight,
            result\<lparr>businessInsight := JStr (trim (remove_label ''Business Insight:'' trimmed))\<rparr>)
         else
           (case currentField of
              Some f \<Rightarrow> if trimmed \<noteq> [] then (currentField, continue_field f result trimmed) else state
            | None \<Rightarrow> state))"

definition initial_result :: AnalysisResult where
  "initial_result =
     \<lparr> riskLevel = JStr ''Unknown'', reason = JStr [], businessImpact = JStr [],
       recommendedAction = JStr [], suggestedReply = None, leadQualityScore = None,
       businessInsight = JStr [] \<rparr>"

text \<open>\<open>text.split('\n').filter(line => line.trim())\<close>\<close>

definition nonblank_lines :: "string \<Rightarrow> string list" where
  "nonblank_lines text = filter (\<lambda>line. trim line \<noteq> []) (split_lines text)"

definition scan_lines :: "string list \<Rightarrow> field option \<times> AnalysisResult" where
  "scan_lines lines = foldl scan_line (None, initial_result) lines"

definition line_path :: "string \<Rightarrow> AnalysisResult" where
  "line_path text = snd (scan_lines (nonblank_lines text))"

text \<open>
  \<open>parseAnalysisResponse(text)\<close>: the result of the \<open>try\<close> block when it returns one;
  otherwise, also after the \<open>catch\<close> has logged what the block threw, the result of the
  scan over the lines.
\<close>

definition parseAnalysisResponse :: "string \<Rightarrow> AnalysisResult" where
  "parseAnalysisResponse text =
     (case json_path text of
        Inr (Some r) \<Rightarrow> r
      | Inr None \<Rightarrow> line_path text
      | Inl e \<Rightarrow> line_path text)"

section \<open>The two calls and the world around them\<close>

text \<open>
  What a call could read or change besides its arguments: the console, to which
  \<open>console.error\<close> appends an entry (here the message and the error logged with it),
  and the environment \<open>process.env\<close>, which other functions of the file read. Neither
  function reads a clock or a random source, and their regular expressions carry no flag
  \<open>g\<close> or \<open>y\<close>, so no \<open>lastIndex\<close> is kept between two calls.
\<close>

record world =
  console :: "(string \<times> error) list"
  env :: "string \<Rightarrow> string option"

definition console_error :: "string \<Rightarrow> error \<Rightarrow> world \<Rightarrow> world" where
  "console_error message e w = w\<lparr>console := console w @ [(message, e)]\<rparr>"

text \<open>
  A call of \<open>parseAnalysisResponse\<close> in a world: what it returns (\<open>Inr\<close>) or throws
  (\<open>Inl\<close>), and the world it leaves. The \<open>try\<close> block returns, or finds no match, or
  throws; what it throws goes to the \<open>catch\<close> clause, which logs it, and control
  continues after the statement with the scan over the lines.
\<close>

definition parseAnalysisResponse_run :: "string \<Rightarrow> world \<Rightarrow> (error + AnalysisResult) \<times> world" where
  "parseAnalysisResponse_run text w =
     (case json_path text of
        Inr (Some r) \<Rightarrow> (Inr r, w)
      | Inr None \<Rightarrow> (Inr (line_path text), w)
      | Inl e \<Rightarrow> (Inr (line_path text), console_error ''JSON parsing failed:'' e w))"


section \<open>The serialisation of a result\<close>

text \<open>
  Modelled from the spec: the serialisation of a result is the orchestrator's
  (\<open>NextResponse.json\<close>, that is the runtime's \<open>JSON.stringify\<close>), not a function of
  the repository. The documented shape is one JSON object with the fields named
  \<open>riskLevel\<close>, \<open>reason\<close>, \<open>businessImpact\<close>, \<open>recommendedAction\<close>,
  \<open>suggestedReply\<close>, \<open>leadQualityScore\<close>, \<open>businessInsight\<close>; an unset field is
  left out. A string is quoted as \<open>JSON.stringify\<close> quotes it: the double quote, the
  backslash and the control characters are escaped. Of the finite numbers only the
  non-negative integers are printed, and an infinity is printed as \<open>null\<close>. Arrays and
  objects do not occur as fields, and a string with a code unit of 256 or more would be
  written with that code unit, outside the texts modelled here: for these values the
  serialisation is \<open>None\<close>.
\<close>

definition hex_digit :: "nat \<Rightarrow> char" where
  "hex_digit d = (if d < 10 then char_of (48 + d) else char_of (87 + d))"

definition quote_char :: "char \<Rightarrow> string" where
  "quote_char c =
     (if c = CHR 0x22 then [CHR 0x5C, CHR 0x22]
      else if c = CHR 0x5C then [CHR 0x5C, CHR 0x5C]
      else if c = CHR 0x08 then [CHR 0x5C, CHR ''b'']
      else if c = CHR 0x0C then [CHR 0x5C, CHR ''f'']
      else if c = CHR 0x0A then [CHR 0x5C, CHR ''n'']
      else if c = CHR 0x0D then [CHR 0x5C, CHR ''r'']
      else if c = CHR 0x09 then [CHR 0x5C, CHR ''t'']
      else if (of_char c :: nat) < 32 then
        [CHR 0x5C, CHR ''u'', CHR ''0'', CHR ''0'', hex_digit (of_char c div 16), hex_digit (of_char c mod 16)]
      else [c])"

definition quote :: "string \<Rightarrow> string" where
  "quote s = CHR 0x22 # concat (map quote_char s) @ [CHR 0x22]"

fun stringify_value :: "json \<Rightarrow> string option" where
  "stringify_value (JStr s) = Some (quote s)"
| "stringify_value (JNum q) =
     (if q = of_nat (nat \<lfloor>q\<rfloor>) then Some (string_of_nat (nat \<lfloor>q\<rfloor>)) else None)"
| "stringify_value JInfinity = Some ''null''"
| "stringify_value JNegInfinity = Some ''null''"
| "stringify_value (JBool b) = Some (if b then ''true'' else ''false'')"
| "stringify_value JNull = Some ''null''"
| "stringify_value (JWide units) = None"
| "stringify_value (JArr vs) = None"
| "stringify_value (JObj ms) = None"

definition stringify_member :: "string \<times> json \<Rightarrow> string option" where
  "stringify_member m = map_option (\<lambda>v. quote (fst m) @ '':'' @ v) (stringify_value (snd m))"

fun join_commas :: "string list \<Rightarrow> string" where
  "join_commas [] = []"
| "join_commas [p] = p"
| "join_commas (p # q # ps) = p @ '','' @ join_commas (q # ps)"

definition stringify_object :: "(string \<times> json) list \<Rightarrow> string option" where
  "stringify_object ms =
     map_option (\<lambda>parts. ''{'' @ join_commas parts @ ''}'') (those (map stringify_member ms))"

definition serialize :: "AnalysisResult \<Rightarrow> string option" where
  "serialize r =
     stringify_object
       ([(''riskLevel'', riskLevel r), (''reason'', reason r), (''businessImpact'', businessImpact r),
         (''recommendedAction'', recommendedAction r)]
        @ (case suggestedReply r of None \<Rightarrow> [] | Some v \<Rightarrow> [(''suggestedReply'', v)])
        @ (case leadQualityScore r of None \<Rightarrow> [] | Some v \<Rightarrow> [(''leadQualityScore'', v)])
        @ [(''businessInsight'', businessInsight r)])"

section \<open>The detection signals in the words of the specification\<close>

text \<open>
  The specification describes the six signals as case-insensitive tests for a phrase
  inside the message. These definitions follow its words, not the code: \<open>contains_ci\<close>
  is the containment of a phrase up to the case of the ASCII letters, \<open>contains_exact\<close>
  the containment of the phrase as it is written, and \<open>spec_signal\<close> holds when
  some phrase of a list is contained.
\<close>

definition ascii_lower :: "char \<Rightarrow> char" where
  "ascii_lower c = (let n = (of_char c :: nat) in if 65 \<le> n \<and> n \<le> 90 then char_of (n + 32) else c)"

definition contains_ci :: "string \<Rightarrow> string \<Rightarrow> bool" where
  "contains_ci s k = includes_str (map ascii_lower s) (map ascii_lower k)"

definition contains_exact :: "string \<Rightarrow> string \<Rightarrow> bool" where
  "contains_exact s k = (\<exists>u v. s = u @ k @ v)"

definition spec_signal :: "string list \<Rightarrow> string \<Rightarrow> bool" where
  "spec_signal phrases message = list_ex (contains_ci message) phrases"

definition spec_isFraud :: "string \<Rightarrow> bool" where
  "spec_isFraud message =
     spec_signal [''urgent'', ''wire'', ''bank account'', ''password'', ''verify'', ''suspended'',
                  ''click here'', ''act now'', ''limited time''] message"

definition spec_isSales :: "string \<Rightarrow> bool" where
  "spec_isSales message =
     spec_signal [''interested'', ''quote'', ''pricing'', ''demo'', ''meeting'', ''budget'',
                  ''looking for'', ''need''] message"

definition spec_isComplaint :: "string \<Rightarrow> bool" where
  "spec_isComplaint message =
     spec_signal [''disappointed'', ''unhappy'', ''refund'', ''complaint'', ''terrible'', ''awful'',
                  ''never again''] message"

definition spec_hasUrl :: "string \<Rightarrow> bool" where
  "spec_hasUrl message = spec_signal [''http://'', ''https://''] message"

definition spec_hasUrgency :: "string \<Rightarrow> bool" where
  "spec_hasUrgency message =
     spec_signal [''urgent'', ''immediately'', ''asap'', ''right now'', ''act now''] message"

definition spec_requestsInfo :: "string \<Rightarrow> bool" where
  "spec_requestsInfo message =
     spec_signal [''password'', ''account'', ''credit card'', ''ssn'', ''social security''] message"

definition spec_riskLevel :: "string \<Rightarrow> string" where
  "spec_riskLevel message =
     (if (spec_isFraud message \<or> (spec_hasUrgency message \<and> spec_requestsInfo message)) \<and> spec_hasUrl message
      then ''High Risk Fraud''
      else if spec_hasUrgency message \<or> spec_requestsInfo message \<or> (spec_hasUrl message \<and> spec_isFraud message)
      then ''Suspicious''
      else ''Safe'')"

definition ascii_string :: "string \<Rightarrow> bool" where
  "ascii_string k = list_all (\<lambda>d. (of_char d :: nat) < 128) k"

definition lower_ascii_string :: "string \<Rightarrow> bool" where
  "lower_ascii_string k = list_all (\<lambda>d. (of_char d :: nat) < 128 \<and> ascii_lower d = d) k"

text \<open>
  The invariant the specification states for a result: the risk level is one of the
  defined levels, and the lead quality score is unset or an integer from 0 to 10.
\<close>

definition valid_riskLevel :: "json \<Rightarrow> bool" where
  "valid_riskLevel v =
     (v = JStr ''Safe'' \<or> v = JStr ''Suspicious'' \<or> v = JStr ''High Risk Fraud'' \<or> v = JStr ''Unknown'')"


text \<open>
  A line begins with one of the seven fixed labels (read on the trimmed line), and the
  shape of every result of the scan over the lines: the five narrative fields hold
  strings of the modelled range, the reply is unset or such a string and not empty, the
  score is unset, a non-negative integer, or \<open>Infinity\<close>.
\<close>

definition has_label :: "string \<Rightarrow> bool" where
  "has_label trimmed =
     (matches_at_i trimmed ''Risk Level:'' \<or> matches_at_i trimmed ''Reason:''
      \<or> matches_at_i trimmed ''Business Impact:'' \<or> matches_at_i trimmed ''Recommended Action:''
      \<or> matches_at_i trimmed ''Suggested Reply'' \<or> matches_at_i trimmed ''Lead Quality Score''
      \<or> matches_at_i trimmed ''Business Insight:'')"

definition line_shape :: "AnalysisResult \<Rightarrow> bool" where
  "line_shape r =
     ((\<exists>s. riskLevel r = JStr s) \<and> (\<exists>s. reason r = JStr s) \<and> (\<exists>s. businessImpact r = JStr s)
      \<and> (\<exists>s. recommendedAction r = JStr s) \<and> (\<exists>s. businessInsight r = JStr s)
      \<and> (suggestedReply r = None \<or> (\<exists>s. s \<noteq> [] \<and> suggestedReply r = Some (JStr s)))
      \<and> (leadQualityScore r = None \<or> (\<exists>n::nat. leadQualityScore r = Some (JNum (of_nat n)))
          \<or> leadQualityScore r = Some JInfinity))"

text \<open>
  A valid result in the words of the round-trip claim: the risk level is one of the
  defined levels, the four narrative fields are non-empty strings, the reply is unset or
  a string, and the score is an integer from 0 to 10. The strings are those of the
  modelled range, which the serialisation can write.
\<close>

fun nonempty_string :: "json \<Rightarrow> bool" where
  "nonempty_string (JStr s) = (s \<noteq> [])"
| "nonempty_string v = False"

definition valid_result :: "AnalysisResult \<Rightarrow> bool" where
  "valid_result r =
     (valid_riskLevel (riskLevel r) \<and> nonempty_string (reason r) \<and> nonempty_string (businessImpact r)
      \<and> nonempty_string (recommendedAction r) \<and> nonempty_string (businessInsight r)
      \<and> (suggestedReply r = None \<or> (\<exists>s. suggestedReply r = Some (JStr s)))
      \<and> (\<exists>n::nat. n \<le> 10 \<and> leadQualityScore r = Some (JNum (of_nat n))))"


section \<open>Properties of the numbers and the strings\<close>

text \<open>
  Powers of two, the binary exponent of a positive rational, and the rounding of a
  non-negative integer: the double for it is a non-negative integer again, or
  \<open>Infinity\<close>; it is the integer itself below \<open>2^53\<close>, and \<open>Infinity\<close> from
  \<open>2^1024\<close> on.
\<close>

lemma pow2_pos: "0 < pow2 k"
  by (simp add: pow2_def)

lemma pow2_Suc: "pow2 (k + 1) = 2 * pow2 k"
proof (cases "0 \<le> k")
  case True
  then show ?thesis by (simp add: pow2_def nat_add_distrib)
next
  case False
  then have "nat (- k) = Suc (nat (- (k + 1)))" by simp
  with False show ?thesis
    by (cases "k = -1") (simp_all add: pow2_def)
qed

lemma pow2_mono: "j \<le> k \<Longrightarrow> pow2 j \<le> pow2 k"
proof -
  assume "j \<le> k"
  then obtain d where k: "k = j + int d" by (metis zle_iff_zadd)
  have "pow2 j \<le> pow2 (j + int d)"
  proof (induction d)
    case 0
    then show ?case by simp
  next
    case (Suc d)
    have "j + int (Suc d) = (j + int d) + 1" by simp
    then have "pow2 (j + int (Suc d)) = 2 * pow2 (j + int d)"
      by (simp only: pow2_Suc)
    with Suc pow2_pos[of "j + int d"] show ?case by simp
  qed
  with k show ?thesis by simp
qed

lemma pow2_less_imp: "pow2 j < pow2 k \<Longrightarrow> j < k"
  using pow2_mono[of k j] by (cases "j < k") auto

lemma pow2_of_nat: "pow2 (int n) = 2 ^ n"
  by (simp add: pow2_def)

lemma pow2_neg: "pow2 (- k) = 1 / pow2 k"
  by (cases "k = 0") (auto simp: pow2_def)

lemma round_half_even_of_int: "round_half_even (of_int i) = i"
  by (simp add: round_half_even_def)

lemma round_half_even_nonneg: "0 \<le> m \<Longrightarrow> 0 \<le> round_half_even m"
  by (auto simp: round_half_even_def Let_def)

lemma recip_less_flip: "0 < (a::rat) \<Longrightarrow> 0 < p \<Longrightarrow> 1 / a < p \<Longrightarrow> 1 / p < a"
  by (simp add: field_simps)

lemma recip_le_flip: "0 < (a::rat) \<Longrightarrow> 0 < p \<Longrightarrow> p \<le> 1 / a \<Longrightarrow> a \<le> 1 / p"
  by (simp add: field_simps)

lemma binary_exponent_bounds:
  assumes "0 < a"
  shows "pow2 (binary_exponent a) \<le> a \<and> a < pow2 (binary_exponent a + 1)"
proof (cases "1 \<le> a")
  case True
  then have f: "0 < \<lfloor>a\<rfloor>" by simp
  define b where "b = bitlen \<lfloor>a\<rfloor>"
  from f have b1: "1 \<le> b" unfolding b_def by (auto simp: bitlen_alt_def)
  from bitlen_bounds[OF f] have lo: "2 ^ nat (b - 1) \<le> \<lfloor>a\<rfloor>" and hi: "\<lfloor>a\<rfloor> < 2 ^ nat b"
    unfolding b_def by auto
  from lo have "(of_int (2 ^ nat (b - 1)) :: rat) \<le> a" by (rule iffD1[OF le_floor_iff])
  then have 1: "pow2 (b - 1) \<le> a" using b1 by (simp add: pow2_def)
  from hi have "a < (of_int (2 ^ nat b) :: rat)" by (rule iffD1[OF floor_less_iff])
  then have 2: "a < pow2 b" using b1 by (simp add: pow2_def)
  from True 1 2 show ?thesis by (simp add: binary_exponent_def b_def)
next
  case False
  with assms have inv: "1 < 1 / a" by simp
  then have f: "0 < \<lfloor>1 / a\<rfloor>" by simp
  define b where "b = bitlen \<lfloor>1 / a\<rfloor>"
  define k where "k = b - 1"
  from f have b1: "1 \<le> b" unfolding b_def by (auto simp: bitlen_alt_def)
  from bitlen_bounds[OF f] have lo: "2 ^ nat (b - 1) \<le> \<lfloor>1 / a\<rfloor>" and hi: "\<lfloor>1 / a\<rfloor> < 2 ^ nat b"
    unfolding b_def by auto
  from lo have "(of_int (2 ^ nat (b - 1)) :: rat) \<le> 1 / a" by (rule iffD1[OF le_floor_iff])
  then have 1: "pow2 k \<le> 1 / a" using b1 by (simp add: pow2_def k_def)
  from hi have "1 / a < (of_int (2 ^ nat b) :: rat)" by (rule iffD1[OF floor_less_iff])
  then have 2: "1 / a < pow2 (k + 1)" using b1 by (simp add: pow2_def k_def)
  from recip_le_flip[OF assms pow2_pos 1] have u: "a \<le> pow2 (- k)"
    by (simp only: pow2_neg)
  have "- k - 1 = - (k + 1)" by simp
  then have "pow2 (- k - 1) = 1 / pow2 (k + 1)" by (simp only: pow2_neg)
  with recip_less_flip[OF assms pow2_pos 2] have l: "pow2 (- k - 1) < a" by simp
  have e: "binary_exponent a = (if a = pow2 (- k) then - k else - k - 1)"
    using False by (simp add: binary_exponent_def k_def b_def Let_def)
  show ?thesis
  proof (cases "a = pow2 (- k)")
    case True
    with e pow2_Suc[of "- k"] pow2_pos[of "- k"] show ?thesis by simp
  next
    case ne: False
    with u have "a < pow2 (- k)" by simp
    with l e ne show ?thesis by simp
  qed
qed


lemma rounded_nat:
  fixes n :: nat and z :: int
  shows "\<exists>k::nat. of_int (round_half_even (of_nat n / pow2 z)) * pow2 z = (of_nat k :: rat)
           \<and> (z \<le> 0 \<longrightarrow> k = n)"
proof (cases "0 \<le> z")
  case True
  have "0 \<le> round_half_even (of_nat n / pow2 z)"
    using pow2_pos[of z] by (intro round_half_even_nonneg) simp
  then obtain j :: nat where j: "round_half_even (of_nat n / pow2 z) = int j"
    using nonneg_int_cases by blast
  have p: "pow2 z = of_nat (2 ^ nat z)" using True by (simp add: pow2_def)
  have "(of_int (round_half_even (of_nat n / pow2 z)) :: rat) = of_nat j"
    by (simp only: j of_int_of_nat_eq)
  then have "of_int (round_half_even (of_nat n / pow2 z)) * pow2 z = (of_nat j :: rat) * of_nat (2 ^ nat z)"
    using p by simp
  then have "of_int (round_half_even (of_nat n / pow2 z)) * pow2 z = (of_nat (j * 2 ^ nat z) :: rat)"
    by (simp only: of_nat_mult)
  moreover have "z \<le> 0 \<longrightarrow> j * 2 ^ nat z = n"
  proof
    assume "z \<le> 0"
    with True have "z = 0" by simp
    then have "round_half_even (of_nat n / pow2 z) = int n"
      using round_half_even_of_int[of "int n"] by (simp add: pow2_def)
    with j \<open>z = 0\<close> show "j * 2 ^ nat z = n" by simp
  qed
  ultimately show ?thesis by blast
next
  case False
  then have p: "pow2 z = 1 / 2 ^ nat (- z)" by (simp add: pow2_def)
  have "(of_nat n :: rat) / pow2 z = of_int (int n * 2 ^ nat (- z))" unfolding p by simp
  then have "round_half_even (of_nat n / pow2 z) = int n * 2 ^ nat (- z)"
    by (simp only: round_half_even_of_int)
  then have "of_int (round_half_even (of_nat n / pow2 z)) * pow2 z = (of_nat n :: rat)"
    unfolding p by simp
  then show ?thesis by blast
qed

lemma to_double_of_nat:
  "to_double (of_nat n) = PlusInfinity \<or> (\<exists>k::nat. to_double (of_nat n) = Finite (of_nat k))"
proof (cases "n = 0")
  case True
  have "to_double 0 = Finite (of_nat 0)" by (simp add: to_double_def)
  with True show ?thesis by auto
next
  case False
  from rounded_nat[of n "quantum_exponent (of_nat n)"] obtain k :: nat where
    k: "round_to_quantum (of_nat n) = (of_nat k :: rat)"
    unfolding round_to_quantum_def by blast
  from False have "to_double (of_nat n) =
      (if 1024 \<le> binary_exponent (of_nat k) then PlusInfinity else Finite (of_nat k))"
    by (simp add: to_double_def Let_def k)
  then show ?thesis by auto
qed

lemma to_double_exact_nat:
  assumes "n < 2 ^ 53"
  shows "to_double (of_nat n) = Finite (of_nat n)"
proof (cases "n = 0")
  case True
  then show ?thesis by (simp add: to_double_def)
next
  case False
  define e where "e = binary_exponent (of_nat n)"
  from False have pos: "(0::rat) < of_nat n" by simp
  from binary_exponent_bounds[OF pos] have "pow2 e \<le> of_nat n" by (simp add: e_def)
  also from assms have "(of_nat n :: rat) < of_nat (2 ^ 53)" by (simp only: of_nat_less_iff)
  also have "(of_nat (2 ^ 53) :: rat) = pow2 53" by (simp add: pow2_def)
  finally have e: "e < 53" by (rule pow2_less_imp)
  then have "quantum_exponent (of_nat n) \<le> 0"
    by (simp add: quantum_exponent_def Let_def e_def[symmetric])
  with rounded_nat[of n "quantum_exponent (of_nat n)"]
  have v: "round_to_quantum (of_nat n) = (of_nat n :: rat)"
    unfolding round_to_quantum_def by auto
  from e have small: "\<not> 1024 \<le> binary_exponent (of_nat n)" by (simp add: e_def)
  from False show ?thesis
    by (simp add: to_double_def Let_def v small)
qed




lemma to_double_upto_10:
  "to_double 0 = Finite 0" "to_double 1 = Finite 1" "to_double 2 = Finite 2" "to_double 3 = Finite 3"
  "to_double 4 = Finite 4" "to_double 5 = Finite 5" "to_double 6 = Finite 6" "to_double 7 = Finite 7"
  "to_double 8 = Finite 8" "to_double 9 = Finite 9" "to_double 10 = Finite 10"
  using to_double_exact_nat[of 0] to_double_exact_nat[of 1] to_double_exact_nat[of 2]
    to_double_exact_nat[of 3] to_double_exact_nat[of 4] to_double_exact_nat[of 5]
    to_double_exact_nat[of 6] to_double_exact_nat[of 7] to_double_exact_nat[of 8]
    to_double_exact_nat[of 9] to_double_exact_nat[of 10]
  by simp_all

lemma number_parseInt:
  "number (parseInt ds) = JInfinity \<or> (\<exists>k::nat. number (parseInt ds) = JNum (of_nat k))"
  using to_double_of_nat[of "nat_of_digits 0 ds"] by (auto simp: parseInt_def number_def)




text \<open>A string of the modelled range and its code units.\<close>

lemma code_units_inj [simp]: "code_units a = code_units b \<longleftrightarrow> a = b"
  unfolding code_units_def by (rule inj_map_eq_map) (rule injI, simp)

lemma code_units_Nil [simp]: "code_units [] = []"
  by (simp add: code_units_def)

lemma code_units_Cons: "code_units (c # cs) = of_char c # code_units cs"
  by (simp add: code_units_def)

lemma of_char_less_256: "(of_char c :: nat) < 256"
proof -
  have "(of_char c :: nat) mod 256 = of_char c" by (rule of_char_mod_256)
  moreover have "(of_char c :: nat) mod 256 < 256" by simp
  ultimately show ?thesis by (simp only:)
qed

lemma string_value_code_units [simp]: "string_value (code_units s) = JStr s"
proof -
  have "list_all (\<lambda>u. u < 256) (map of_char s :: nat list)"
    by (simp add: list_all_iff of_char_less_256)
  moreover have "map char_of (map (of_char :: char \<Rightarrow> nat) s) = s"
    by (induction s) simp_all
  ultimately show ?thesis by (simp add: string_value_def code_units_def)
qed

section \<open>Properties of the analyzer\<close>

text \<open>What the two string tests compute.\<close>

lemma startsWith_iff: "startsWith s p \<longleftrightarrow> (\<exists>v. s = p @ v)"
  by (induction s p rule: startsWith.induct) auto

lemma includes_str_iff: "includes_str s k \<longleftrightarrow> (\<exists>u v. s = u @ k @ v)"
proof (induction s)
  case Nil
  then show ?case by auto
next
  case (Cons c cs)
  show ?case
  proof
    assume "includes_str (c # cs) k"
    then consider "startsWith (c # cs) k" | "includes_str cs k" by auto
    then show "\<exists>u v. c # cs = u @ k @ v"
    proof cases
      case 1
      then obtain v where "c # cs = k @ v" by (auto simp: startsWith_iff)
      then have "c # cs = [] @ k @ v" by simp
      then show ?thesis by blast
    next
      case 2
      with Cons obtain u v where "cs = u @ k @ v" by blast
      then have "c # cs = (c # u) @ k @ v" by simp
      then show ?thesis by blast
    qed
  next
    assume "\<exists>u v. c # cs = u @ k @ v"
    then obtain u v where e: "c # cs = u @ k @ v" by blast
    show "includes_str (c # cs) k"
    proof (cases u)
      case Nil
      with e have "startsWith (c # cs) k" by (auto simp: startsWith_iff)
      then show ?thesis by simp
    next
      case (Cons a u')
      with e have "cs = u' @ k @ v" by simp
      with Cons.IH show ?thesis by auto
    qed
  qed
qed

lemma risk_string_inj: "risk_string a = risk_string b \<longleftrightarrow> a = b"
  by (cases a; cases b) simp_all

lemma riskLevel_analyze: "riskLevel (analyzeWithFallback m s c) = JStr (risk_string (classify m))"
  by (simp add: analyzeWithFallback_def Let_def)

lemma riskLevel_Safe_iff: "riskLevel (analyzeWithFallback m s c) = JStr ''Safe'' \<longleftrightarrow> classify m = Safe"
  using risk_string_inj[of "classify m" Safe] by (simp add: riskLevel_analyze)

lemma templates_differ: "salesReply \<noteq> complaintReply" "salesReply \<noteq> genericReply" "complaintReply \<noteq> genericReply"
  by (simp_all add: salesReply_def complaintReply_def genericReply_def)

lemma of_char_ascii_lower:
  "(of_char (ascii_lower c) :: nat) = (if 65 \<le> (of_char c :: nat) \<and> (of_char c :: nat) \<le> 90 then of_char c + 32 else of_char c)"
  by (simp add: ascii_lower_def Let_def)

lemma of_char_toLowerCase_char:
  "(of_char (toLowerCase_char c) :: nat) =
     (if (65 \<le> (of_char c :: nat) \<and> (of_char c :: nat) \<le> 90)
         \<or> (192 \<le> (of_char c :: nat) \<and> (of_char c :: nat) \<le> 222 \<and> (of_char c :: nat) \<noteq> 215)
      then of_char c + 32 else of_char c)"
  by (simp add: toLowerCase_char_def Let_def)

lemma char_eq_via_code: "c = d \<longleftrightarrow> (of_char c :: nat) = of_char d"
  by simp

lemma toLowerCase_char_eq_ascii:
  assumes "(of_char d :: nat) < 128"
  shows "toLowerCase_char c = d \<longleftrightarrow> ascii_lower c = d"
  using assms
  unfolding char_eq_via_code[of "toLowerCase_char c"] char_eq_via_code[of "ascii_lower c"]
    of_char_toLowerCase_char of_char_ascii_lower
  by auto

lemma canonicalize_eq_ascii:
  assumes "(of_char d :: nat) < 128"
  shows "canonicalize c = canonicalize d \<longleftrightarrow> ascii_lower c = ascii_lower d"
proof -
  have *: "\<And>n m :: nat. m < 128 \<Longrightarrow>
      ((if 97 \<le> n \<and> n \<le> 122 then n - 32
        else if 224 \<le> n \<and> n \<le> 254 \<and> n \<noteq> 247 then n - 32
        else if n = 255 then 376 else if n = 181 then 924 else n)
       = (if 97 \<le> m \<and> m \<le> 122 then m - 32
        else if 224 \<le> m \<and> m \<le> 254 \<and> m \<noteq> 247 then m - 32
        else if m = 255 then 376 else if m = 181 then 924 else m))
      = ((if 65 \<le> n \<and> n \<le> 90 then n + 32 else n) = (if 65 \<le> m \<and> m \<le> 90 then m + 32 else m))"
    by (auto split: if_splits)
  have "(canonicalize c = canonicalize d) = ((of_char (ascii_lower c) :: nat) = of_char (ascii_lower d))"
    unfolding of_char_ascii_lower canonicalize_def Let_def
    by (rule *[OF assms])
  then show ?thesis by simp
qed


lemma contains_ci_iff:
  "contains_ci s k \<longleftrightarrow> (\<exists>u w v. s = u @ w @ v \<and> map ascii_lower w = map ascii_lower k)"
proof
  assume "contains_ci s k"
  then obtain u v where "map ascii_lower s = u @ map ascii_lower k @ v"
    by (auto simp: contains_ci_def includes_str_iff)
  then obtain u' r where 1: "s = u' @ r" "map ascii_lower r = map ascii_lower k @ v"
    by (metis map_eq_append_conv)
  then obtain w v' where 2: "r = w @ v'" "map ascii_lower w = map ascii_lower k"
    by (metis map_eq_append_conv)
  from 1 2 have "s = u' @ w @ v'" by simp
  with 2 show "\<exists>u w v. s = u @ w @ v \<and> map ascii_lower w = map ascii_lower k" by blast
next
  assume "\<exists>u w v. s = u @ w @ v \<and> map ascii_lower w = map ascii_lower k"
  then obtain u w v where "s = u @ w @ v" "map ascii_lower w = map ascii_lower k" by blast
  then have "map ascii_lower s = map ascii_lower u @ map ascii_lower k @ map ascii_lower v" by simp
  then show "contains_ci s k" unfolding contains_ci_def includes_str_iff by blast
qed

lemma matches_at_i_ascii:
  "ascii_string p \<Longrightarrow> matches_at_i s p \<longleftrightarrow> startsWith (map ascii_lower s) (map ascii_lower p)"
  by (induction s p rule: matches_at_i.induct) (auto simp: ascii_string_def canonicalize_eq_ascii)

lemma test_i_ascii: "ascii_string p \<Longrightarrow> test_i s p \<longleftrightarrow> contains_ci s p"
  unfolding contains_ci_def
  by (induction s) (auto simp: matches_at_i_ascii simp del: startsWith.simps matches_at_i.simps)

lemma startsWith_toLowerCase:
  "lower_ascii_string k \<Longrightarrow> startsWith (map toLowerCase_char s) k \<longleftrightarrow> startsWith (map ascii_lower s) (map ascii_lower k)"
  by (induction s k rule: startsWith.induct) (auto simp: lower_ascii_string_def toLowerCase_char_eq_ascii)

lemma includes_toLowerCase:
  "lower_ascii_string k \<Longrightarrow> includes_str (toLowerCase s) k \<longleftrightarrow> contains_ci s k"
  unfolding contains_ci_def toLowerCase_def
proof (induction s)
  case Nil
  then show ?case by (cases k) auto
next
  case (Cons c cs)
  from startsWith_toLowerCase[OF Cons.prems, of "c # cs"] Cons show ?case
    by (simp del: startsWith.simps)
qed


lemma some_included_spec:
  "list_all lower_ascii_string kws \<Longrightarrow>
   some_included kws (toLowerCase message) = spec_signal kws message"
  by (induction kws) (auto simp: some_included_def spec_signal_def includes_toLowerCase)

lemma test_alternatives_spec:
  "list_all ascii_string alts \<Longrightarrow> test_alternatives_i alts message = spec_signal alts message"
  by (induction alts) (auto simp: test_alternatives_i_def spec_signal_def test_i_ascii)

lemma isFraud_spec: "isFraud message = spec_isFraud message"
proof -
  have "list_all lower_ascii_string fraudKeywords" by code_simp
  from some_included_spec[OF this] show ?thesis
    by (simp add: isFraud_def spec_isFraud_def fraudKeywords_def)
qed

lemma isSales_spec: "isSales message = spec_isSales message"
proof -
  have "list_all lower_ascii_string salesKeywords" by code_simp
  from some_included_spec[OF this] show ?thesis
    by (simp add: isSales_def spec_isSales_def salesKeywords_def)
qed

lemma isComplaint_spec: "isComplaint message = spec_isComplaint message"
proof -
  have "list_all lower_ascii_string complaintKeywords" by code_simp
  from some_included_spec[OF this] show ?thesis
    by (simp add: isComplaint_def spec_isComplaint_def complaintKeywords_def)
qed

lemma hasUrgency_spec: "hasUrgency message = spec_hasUrgency message"
proof -
  have "list_all ascii_string [''urgent'', ''immediately'', ''asap'', ''right now'', ''act now'']"
    by code_simp
  from test_alternatives_spec[OF this] show ?thesis
    by (simp add: hasUrgency_def spec_hasUrgency_def)
qed

lemma requestsInfo_spec: "requestsInfo message = spec_requestsInfo message"
proof -
  have "list_all ascii_string [''password'', ''account'', ''credit card'', ''ssn'', ''social security'']"
    by code_simp
  from test_alternatives_spec[OF this] show ?thesis
    by (simp add: requestsInfo_def spec_requestsInfo_def)
qed

lemma hasUrl_exact:
  "hasUrl message = (contains_exact message ''http://'' \<or> contains_exact message ''https://'')"
  by (simp only: hasUrl_def contains_exact_def includes_str_iff)


lemma suggestedReply_analyze:
  "suggestedReply (analyzeWithFallback m s c) = map_option JStr (select_reply (classify m) (isSales m) (isComplaint m))"
  by (simp add: analyzeWithFallback_def Let_def)

lemma leadQualityScore_analyze:
  "leadQualityScore (analyzeWithFallback m s c) = Some (JNum (of_nat (lead_score m (isSales m) (classify m))))"
  by (simp add: analyzeWithFallback_def Let_def)

text \<open>
  Claim C10. For every message whose risk level is Safe and for which both \<open>isSales\<close>
  and \<open>isComplaint\<close> hold, the suggested reply is the sales template, not the apology
  template for complaints: the sales branch is tried before the complaint branch.
\<close>

theorem sales_reply_before_complaint_reply:
  assumes "riskLevel (analyzeWithFallback message senderInfo context) = JStr ''Safe''"
    and "isSales message" and "isComplaint message"
  shows "suggestedReply (analyzeWithFallback message senderInfo context) = Some (JStr salesReply)
         \<and> suggestedReply (analyzeWithFallback message senderInfo context) \<noteq> Some (JStr complaintReply)"
proof -
  from assms(1) have "classify message = Safe" by (simp only: riskLevel_Safe_iff)
  with assms(2,3) have "suggestedReply (analyzeWithFallback message senderInfo context) = Some (JStr salesReply)"
    by (simp add: analyzeWithFallback_def Let_def select_reply_def)
  with templates_differ(1) show ?thesis by simp
qed

theorem sales_reply_before_complaint_reply_witness:
  "riskLevel (analyzeWithFallback ''need a refund'' None None) = JStr ''Safe''
   \<and> isSales ''need a refund'' \<and> isComplaint ''need a refund''
   \<and> suggestedReply (analyzeWithFallback ''need a refund'' None None) = Some (JStr salesReply)
   \<and> suggestedReply (analyzeWithFallback ''need a refund'' None None) \<noteq> Some (JStr complaintReply)"
proof -
  have "classify ''need a refund'' = Safe" by code_simp
  then have 1: "riskLevel (analyzeWithFallback ''need a refund'' None None) = JStr ''Safe''"
    by (simp add: riskLevel_analyze)
  have 2: "isSales ''need a refund''" by code_simp
  have 3: "isComplaint ''need a refund''" by code_simp
  from sales_reply_before_complaint_reply[OF 1 2 3] 1 2 3 show ?thesis by blast
qed

text \<open>
  Claim C1 (as amended). For every message, the risk level that \<open>analyzeWithFallback\<close>
  returns is High Risk Fraud exactly when (isFraud or (hasUrgency and requestsInfo)) and
  hasUrl; otherwise Suspicious exactly when hasUrgency or requestsInfo or (hasUrl and
  isFraud); otherwise Safe. Here isFraud, hasUrgency and requestsInfo are the
  case-insensitive phrase tests of the specification's table, as are the two remaining
  signals isSales and isComplaint, and hasUrl is the case-sensitive test for \<open>http://\<close>
  or \<open>https://\<close>.
\<close>

theorem risk_classification:
  "riskLevel (analyzeWithFallback message senderInfo context) =
     JStr (if (spec_isFraud message \<or> (spec_hasUrgency message \<and> spec_requestsInfo message))
              \<and> (contains_exact message ''http://'' \<or> contains_exact message ''https://'')
           then ''High Risk Fraud''
           else if spec_hasUrgency message \<or> spec_requestsInfo message
                   \<or> ((contains_exact message ''http://'' \<or> contains_exact message ''https://'') \<and> spec_isFraud message)
           then ''Suspicious''
           else ''Safe'')
   \<and> isSales message = spec_isSales message
   \<and> isComplaint message = spec_isComplaint message"
proof -
  have "riskLevel (analyzeWithFallback message senderInfo context) = JStr (risk_string (classify message))"
    by (rule riskLevel_analyze)
  also have "risk_string (classify message) =
     (if (isFraud message \<or> (hasUrgency message \<and> requestsInfo message)) \<and> hasUrl message
      then ''High Risk Fraud''
      else if hasUrgency message \<or> requestsInfo message \<or> (hasUrl message \<and> isFraud message)
      then ''Suspicious'' else ''Safe'')"
    by (simp add: classify_def)
  finally have "riskLevel (analyzeWithFallback message senderInfo context) =
     JStr (if (spec_isFraud message \<or> (spec_hasUrgency message \<and> spec_requestsInfo message))
              \<and> (contains_exact message ''http://'' \<or> contains_exact message ''https://'')
           then ''High Risk Fraud''
           else if spec_hasUrgency message \<or> spec_requestsInfo message
                   \<or> ((contains_exact message ''http://'' \<or> contains_exact message ''https://'') \<and> spec_isFraud message)
           then ''Suspicious''
           else ''Safe'')"
    by (simp only: isFraud_spec hasUrgency_spec requestsInfo_spec hasUrl_exact)
  with isSales_spec[of message] isComplaint_spec[of message] show ?thesis by blast
qed

theorem risk_classification_witness:
  "riskLevel (analyzeWithFallback ''wire https://x'' None None)
     = JStr ''High Risk Fraud''
   \<and> riskLevel (analyzeWithFallback ''urgent'' None None) = JStr ''Suspicious''
   \<and> riskLevel (analyzeWithFallback ''hello'' None None) = JStr ''Safe''"
proof -
  have 1: "spec_isFraud ''wire https://x''" by code_simp
  have 2: "contains_exact ''wire https://x'' ''https://''"
    unfolding contains_exact_def
    by (rule exI[of _ "''wire ''"], rule exI[of _ "''x''"]) simp
  have 3: "spec_hasUrgency ''urgent''" by code_simp
  have 4: "\<not> contains_exact ''urgent'' ''http://''" "\<not> contains_exact ''urgent'' ''https://''"
    unfolding contains_exact_def includes_str_iff[symmetric] by code_simp+
  have 5: "\<not> spec_isFraud ''hello''" "\<not> spec_hasUrgency ''hello''" "\<not> spec_requestsInfo ''hello''"
    by code_simp+
  show ?thesis
    using risk_classification[of "''wire https://x''" None None]
      risk_classification[of "''urgent''" None None]
      risk_classification[of "''hello''" None None] 1 2 3 4 5
    by simp
qed

text \<open>
  With hasUrl read case-insensitively, as the table's heading has it, the classification
  of the specification and that of the code part at an upper-case scheme.
\<close>

theorem risk_classification_counterexample:
  "riskLevel (analyzeWithFallback ''urgent HTTP://x'' None None) = JStr ''Suspicious''
   \<and> spec_riskLevel ''urgent HTTP://x'' = ''High Risk Fraud''"
proof
  have "classify ''urgent HTTP://x'' = Suspicious" by code_simp
  then show "riskLevel (analyzeWithFallback ''urgent HTTP://x'' None None) = JStr ''Suspicious''"
    by (simp add: riskLevel_analyze)
  show "spec_riskLevel ''urgent HTTP://x'' = ''High Risk Fraud''"
    by code_simp
qed

text \<open>
  Claim C4 (as amended). For every message, the suggested reply is chosen by the first
  branch that applies: the sales template when the risk level is Safe and \<open>isSales\<close>
  holds; else the apology template when \<open>isComplaint\<close> holds, whatever the risk level;
  else the generic acknowledgment when the risk level is Safe; else it is unset. So it is
  unset exactly when the risk level is not Safe and \<open>isComplaint\<close> fails, and no
  risk level overrides the reply to a complaint.
\<close>

theorem suggested_reply_selection:
  "suggestedReply (analyzeWithFallback message senderInfo context) =
     (if riskLevel (analyzeWithFallback message senderInfo context) = JStr ''Safe'' \<and> isSales message
      then Some (JStr salesReply)
      else if isComplaint message then Some (JStr complaintReply)
      else if riskLevel (analyzeWithFallback message senderInfo context) = JStr ''Safe''
      then Some (JStr genericReply)
      else None)
   \<and> (suggestedReply (analyzeWithFallback message senderInfo context) = None
        \<longleftrightarrow> riskLevel (analyzeWithFallback message senderInfo context) \<noteq> JStr ''Safe''
            \<and> \<not> isComplaint message)"
  unfolding riskLevel_Safe_iff suggestedReply_analyze
  by (simp add: select_reply_def)

theorem suggested_reply_selection_witness:
  "suggestedReply (analyzeWithFallback ''hello'' None None) = Some (JStr genericReply)
   \<and> suggestedReply (analyzeWithFallback ''urgent'' None None) = None"
proof -
  have 1: "classify ''hello'' = Safe" "\<not> isSales ''hello''" "\<not> isComplaint ''hello''" by code_simp+
  have 2: "classify ''urgent'' = Suspicious" "\<not> isComplaint ''urgent''" by code_simp+
  show ?thesis
    using suggested_reply_selection[of "''hello''" None None]
      suggested_reply_selection[of "''urgent''" None None] 1 2
    by (simp add: riskLevel_analyze)
qed

text \<open>
  The claim's last clause, that a non-safe risk level overrides the reply to a complaint,
  fails: a Suspicious message with a complaint word gets the apology template.
\<close>

theorem suggested_reply_counterexample:
  "riskLevel (analyzeWithFallback ''urgent refund'' None None) = JStr ''Suspicious''
   \<and> suggestedReply (analyzeWithFallback ''urgent refund'' None None) = Some (JStr complaintReply)"
proof -
  have "classify ''urgent refund'' = Suspicious" "isComplaint ''urgent refund''" by code_simp+
  then show ?thesis
    by (simp add: riskLevel_analyze suggestedReply_analyze select_reply_def)
qed

text \<open>
  Claim C5. For every message, the lead quality score is 0 unless \<open>isSales\<close> holds and
  the risk level is Safe; then it is the minimum of 10 and 5, plus 2 when the message
  contains "budget", plus 1 when it contains "timeline" or "when", plus 1 when it
  contains "demo" or "meeting", plus 1 when it is longer than 200 characters (the words
  are looked for in the lower-cased message, so in any case of their letters). So the
  score is 0 or lies between 5 and 10, and the empty message gets Safe and 0.
\<close>

theorem lead_quality_score:
  "leadQualityScore (analyzeWithFallback message senderInfo context) =
     Some (JNum (of_nat
       (if isSales message \<and> riskLevel (analyzeWithFallback message senderInfo context) = JStr ''Safe''
        then min (5 + 2 * of_bool (contains_ci message ''budget'')
                    + of_bool (contains_ci message ''timeline'' \<or> contains_ci message ''when'')
                    + of_bool (contains_ci message ''demo'' \<or> contains_ci message ''meeting'')
                    + of_bool (length message > 200)) 10
        else 0)))
   \<and> (\<exists>n::nat. leadQualityScore (analyzeWithFallback message senderInfo context) = Some (JNum (of_nat n))
                \<and> (n = 0 \<or> (5 \<le> n \<and> n \<le> 10)))
   \<and> riskLevel (analyzeWithFallback [] senderInfo context) = JStr ''Safe''
   \<and> leadQualityScore (analyzeWithFallback [] senderInfo context) = Some (JNum 0)"
proof -
  have low: "lower_ascii_string ''budget''" "lower_ascii_string ''timeline''" "lower_ascii_string ''when''"
    "lower_ascii_string ''demo''" "lower_ascii_string ''meeting''"
    by code_simp+
  have score: "lead_score message (isSales message) (classify message) =
       (if isSales message \<and> classify message = Safe
        then min (5 + 2 * of_bool (contains_ci message ''budget'')
                    + of_bool (contains_ci message ''timeline'' \<or> contains_ci message ''when'')
                    + of_bool (contains_ci message ''demo'' \<or> contains_ci message ''meeting'')
                    + of_bool (length message > 200)) 10
        else 0)"
    by (simp add: lead_score_def Let_def low[THEN includes_toLowerCase])
  have range: "lead_score message (isSales message) (classify message) = 0
       \<or> (5 \<le> lead_score message (isSales message) (classify message)
           \<and> lead_score message (isSales message) (classify message) \<le> 10)"
    by (simp add: lead_score_def Let_def)
  have empty: "classify [] = Safe" "\<not> isSales []" by code_simp+
  have 1: "leadQualityScore (analyzeWithFallback message senderInfo context) =
     Some (JNum (of_nat
       (if isSales message \<and> riskLevel (analyzeWithFallback message senderInfo context) = JStr ''Safe''
        then min (5 + 2 * of_bool (contains_ci message ''budget'')
                    + of_bool (contains_ci message ''timeline'' \<or> contains_ci message ''when'')
                    + of_bool (contains_ci message ''demo'' \<or> contains_ci message ''meeting'')
                    + of_bool (length message > 200)) 10
        else 0)))"
    unfolding riskLevel_Safe_iff leadQualityScore_analyze score ..
  have 2: "\<exists>n::nat. leadQualityScore (analyzeWithFallback message senderInfo context) = Some (JNum (of_nat n))
                \<and> (n = 0 \<or> (5 \<le> n \<and> n \<le> 10))"
    unfolding leadQualityScore_analyze using range by blast
  have 3: "riskLevel (analyzeWithFallback [] senderInfo context) = JStr ''Safe''"
    by (simp add: riskLevel_analyze empty)
  have 4: "leadQualityScore (analyzeWithFallback [] senderInfo context) = Some (JNum 0)"
    by (simp add: leadQualityScore_analyze lead_score_def empty)
  from 1 2 3 4 show ?thesis by blast
qed

theorem lead_quality_score_witness:
  "leadQualityScore (analyzeWithFallback ''budget demo'' None None)
     = Some (JNum 8)"
proof -
  let ?m = "''budget demo''"
  have f: "isSales ?m" "classify ?m = Safe" "contains_ci ?m ''budget''" "\<not> contains_ci ?m ''timeline''"
    "\<not> contains_ci ?m ''when''" "contains_ci ?m ''demo''"
    by code_simp+
  from lead_quality_score[of ?m None None] f show ?thesis
    by (simp add: riskLevel_analyze)
qed

section \<open>Properties of the response parser\<close>

text \<open>
  The matched text starts with an opening brace, so what \<open>JSON.parse\<close> returns for it
  is an object: the test for \<open>null\<close> in \<open>json_path\<close> never fires, and a successful
  parse gives the result built from the parsed object.
\<close>

lemma parse_members_object:
  "parse_members acc ts = Some (v, rest) \<Longrightarrow> \<exists>ms. v = JObj ms"
proof (induction "length ts" arbitrary: acc ts rule: less_induct)
  case less
  from less.prems obtain k ts1 where ts: "ts = TString k # Colon # ts1"
    by (subst (asm) parse_members.simps) (auto split: list.splits token.splits)
  with less.prems obtain w ts' where pv: "parse_value ts1 = Some (w, ts')"
    by (subst (asm) parse_members.simps) (auto split: option.splits)
  show ?case
  proof (cases ts')
    case Nil
    with less.prems ts pv show ?thesis by (subst (asm) parse_members.simps) simp
  next
    case (Cons t ts'')
    show ?thesis
    proof (cases "t = Comma")
      case True
      with less.prems ts pv Cons
      have "length ts'' < length ts" and "parse_members ((k, w) # acc) ts'' = Some (v, rest)"
        by (subst (asm) parse_members.simps, auto split: if_splits)+
      with less.hyps show ?thesis by blast
    next
      case False
      with less.prems ts pv Cons show ?thesis
        by (subst (asm) parse_members.simps) (cases t; auto)
    qed
  qed
qed

lemma parse_value_brace_object:
  assumes "parse_value (LBrace # ts) = Some (v, rest)"
  shows "\<exists>ms. v = JObj ms"
proof (cases "\<exists>ts'. ts = RBrace # ts'")
  case True
  with assms show ?thesis by auto
next
  case False
  then have "parse_value (LBrace # ts) = parse_members [] ts"
    by (auto split: list.splits token.splits)
  with assms have "parse_members [] ts = Some (v, rest)" by simp
  then show ?thesis by (rule parse_members_object)
qed

lemma tokenize_brace:
  "tokenize (CHR ''{'' # cs) = Some ts \<Longrightarrow> \<exists>ts'. ts = LBrace # ts'"
  by (auto simp: is_json_ws_def)

lemma JSON_parse_brace_object:
  "JSON_parse (CHR ''{'' # cs) = Inr v \<Longrightarrow> \<exists>ms. v = JObj ms"
proof -
  assume a: "JSON_parse (CHR ''{'' # cs) = Inr v"
  then obtain ts where t: "tokenize (CHR ''{'' # cs) = Some ts"
    by (auto simp: JSON_parse_def split: option.splits)
  then obtain ts' where ts: "ts = LBrace # ts'" by (blast dest: tokenize_brace)
  from a t have "parse_value ts = Some (v, [])"
    by (auto simp: JSON_parse_def split: option.splits list.splits)
  with ts show ?thesis by (blast dest: parse_value_brace_object)
qed

lemma match_braces_starts:
  "match_braces text = Some m \<Longrightarrow> \<exists>cs. m = CHR ''{'' # cs"
proof -
  assume a: "match_braces text = Some m"
  then obtain c rest where d: "dropWhile (\<lambda>c. c \<noteq> CHR ''{'') text = c # rest"
    by (auto simp: match_braces_def split: list.splits)
  then have "c = CHR ''{''" using hd_dropWhile[of "\<lambda>c. c \<noteq> CHR ''{''" "text"] by auto
  with a d show ?thesis by (auto simp: match_braces_def split: list.splits)
qed


lemma json_path_success:
  assumes "match_braces text = Some jsonMatch" and "JSON_parse jsonMatch = Inr parsed"
  shows "parseAnalysisResponse text = result_of_parsed parsed"
proof -
  from assms(1) obtain cs where "jsonMatch = CHR ''{'' # cs" by (blast dest: match_braces_starts)
  with assms(2) obtain ms where "parsed = JObj ms" by (blast dest: JSON_parse_brace_object)
  with assms show ?thesis by (simp add: parseAnalysisResponse_def json_path_def)
qed

lemma or_default_nonempty: "d \<noteq> JStr [] \<Longrightarrow> or_default x d \<noteq> JStr []"
  by (auto simp: or_default_def split: option.splits)

text \<open>
  Claim C9. On the primary path, for every text whose brace span parses, a falsy parsed
  value is replaced by the default: an empty \<open>reason\<close>, \<open>businessImpact\<close>,
  \<open>recommendedAction\<close> or \<open>businessInsight\<close> gives the placeholder, an empty
  \<open>suggestedReply\<close> gives an unset one, and a \<open>leadQualityScore\<close> of 0, null or
  missing gives 0; so no always-present field is the empty string.
\<close>

theorem primary_path_coerces_falsy_values:
  assumes "match_braces text = Some jsonMatch" and "JSON_parse jsonMatch = Inr parsed"
  shows "(get_prop parsed ''reason'' = Some (JStr []) \<longrightarrow>
            reason (parseAnalysisResponse text) = JStr ''No reason provided'')
       \<and> (get_prop parsed ''businessImpact'' = Some (JStr []) \<longrightarrow>
            businessImpact (parseAnalysisResponse text) = JStr ''No impact assessment provided'')
       \<and> (get_prop parsed ''recommendedAction'' = Some (JStr []) \<longrightarrow>
            recommendedAction (parseAnalysisResponse text) = JStr ''No action recommended'')
       \<and> (get_prop parsed ''businessInsight'' = Some (JStr []) \<longrightarrow>
            businessInsight (parseAnalysisResponse text) = JStr ''No insight provided'')
       \<and> (get_prop parsed ''suggestedReply'' = Some (JStr []) \<longrightarrow>
            suggestedReply (parseAnalysisResponse text) = None)
       \<and> (get_prop parsed ''leadQualityScore'' = Some (JNum 0)
            \<or> get_prop parsed ''leadQualityScore'' = Some JNull
            \<or> get_prop parsed ''leadQualityScore'' = None \<longrightarrow>
            leadQualityScore (parseAnalysisResponse text) = Some (JNum 0))
       \<and> riskLevel (parseAnalysisResponse text) \<noteq> JStr []
       \<and> reason (parseAnalysisResponse text) \<noteq> JStr []
       \<and> businessImpact (parseAnalysisResponse text) \<noteq> JStr []
       \<and> recommendedAction (parseAnalysisResponse text) \<noteq> JStr []
       \<and> businessInsight (parseAnalysisResponse text) \<noteq> JStr []"
  unfolding json_path_success[OF assms] result_of_parsed_def
  by (auto simp: or_default_nonempty) (auto simp: or_default_def or_undefined_def)

theorem primary_path_coerces_falsy_values_witness:
  "reason (parseAnalysisResponse ''{\"reason\":\"\",\"suggestedReply\":\"\",\"leadQualityScore\":0}'')
     = JStr ''No reason provided''
   \<and> suggestedReply (parseAnalysisResponse ''{\"reason\":\"\",\"suggestedReply\":\"\",\"leadQualityScore\":0}'')
     = None
   \<and> leadQualityScore (parseAnalysisResponse ''{\"reason\":\"\",\"suggestedReply\":\"\",\"leadQualityScore\":0}'')
     = Some (JNum 0)"
proof -
  let ?t = "''{\"reason\":\"\",\"suggestedReply\":\"\",\"leadQualityScore\":0}''"
  let ?p = "JObj [(code_units ''reason'', JStr []), (code_units ''suggestedReply'', JStr []),
                  (code_units ''leadQualityScore'', JNum 0)]"
  have m: "match_braces ?t = Some ?t" by code_simp
  have p: "JSON_parse ?t = Inr ?p" by code_simp
  have g: "get_prop ?p ''reason'' = Some (JStr [])" "get_prop ?p ''suggestedReply'' = Some (JStr [])"
    "get_prop ?p ''leadQualityScore'' = Some (JNum 0)"
    by simp_all
  from primary_path_coerces_falsy_values[OF m p] g show ?thesis by blast
qed


text \<open>The scan over the lines keeps the shape of its result, whatever the lines are.\<close>

lemma line_shape_initial: "line_shape initial_result"
  by (simp add: line_shape_def initial_result_def)

lemma continue_field_shape:
  assumes "line_shape r" and "trimmed \<noteq> []"
  shows "line_shape (continue_field f r trimmed)"
proof -
  from assms(1) obtain s1 s2 s3 s4 s5 where
    s: "riskLevel r = JStr s1" "reason r = JStr s2" "businessImpact r = JStr s3"
       "recommendedAction r = JStr s4" "businessInsight r = JStr s5"
    unfolding line_shape_def by blast
  from assms(1) have rep: "suggestedReply r = None \<or> (\<exists>s. s \<noteq> [] \<and> suggestedReply r = Some (JStr s))"
    and sc: "leadQualityScore r = None \<or> (\<exists>n::nat. leadQualityScore r = Some (JNum (of_nat n)))
          \<or> leadQualityScore r = Some JInfinity"
    unfolding line_shape_def by blast+
  show ?thesis
  proof (cases f)
    case F_suggestedReply
    with rep assms show ?thesis
      by (auto simp: continue_field_def line_shape_def)
  next
    case F_leadQualityScore
    with sc assms(1) show ?thesis
      by (auto simp: continue_field_def)
  qed (use s assms(1) in \<open>simp_all add: continue_field_def line_shape_def\<close>)
qed

lemma scan_line_shape:
  assumes "line_shape (snd st)"
  shows "line_shape (snd (scan_line st line))"
proof -
  have upd: "\<And>v. line_shape ((snd st)\<lparr>riskLevel := JStr v\<rparr>)" "\<And>v. line_shape ((snd st)\<lparr>reason := JStr v\<rparr>)"
    "\<And>v. line_shape ((snd st)\<lparr>businessImpact := JStr v\<rparr>)"
    "\<And>v. line_shape ((snd st)\<lparr>recommendedAction := JStr v\<rparr>)"
    "\<And>v. line_shape ((snd st)\<lparr>businessInsight := JStr v\<rparr>)"
    "\<And>v. v \<noteq> [] \<Longrightarrow> line_shape ((snd st)\<lparr>suggestedReply := Some (JStr v)\<rparr>)"
    using assms by (auto simp: line_shape_def)
  have sc: "line_shape ((snd st)\<lparr>leadQualityScore := Some (number (parseInt ds))\<rparr>)" for ds
    using assms number_parseInt[of ds] by (auto simp: line_shape_def)
  show ?thesis
    unfolding scan_line_def Let_def
    by (auto simp: upd sc assms continue_field_shape split: option.splits)
qed

lemma foldl_scan_line_shape:
  "line_shape (snd st) \<Longrightarrow> line_shape (snd (foldl scan_line st ls))"
proof (induction ls arbitrary: st)
  case Nil
  then show ?case by simp
next
  case (Cons l ls)
  from Cons.prems have "line_shape (snd (scan_line st l))" by (rule scan_line_shape)
  from Cons.IH[OF this] show ?case by simp
qed


lemma scan_line_no_label:
  assumes "\<not> has_label (trim line)"
  shows "scan_line (currentField, result) line =
     (case currentField of
        Some f \<Rightarrow> if trim line \<noteq> [] then (currentField, continue_field f result (trim line))
                  else (currentField, result)
      | None \<Rightarrow> (currentField, result))"
  using assms unfolding scan_line_def Let_def has_label_def by (simp split: option.splits)

lemma foldl_scan_line_no_label:
  "list_all (\<lambda>line. \<not> has_label (trim line)) ls \<Longrightarrow> foldl scan_line (None, r) ls = (None, r)"
  by (induction ls) (auto simp: scan_line_no_label)


lemma line_path_no_label:
  "list_all (\<lambda>line. \<not> has_label (trim line)) (nonblank_lines text) \<Longrightarrow> line_path text = initial_result"
  by (simp add: line_path_def scan_lines_def foldl_scan_line_no_label)

lemma parse_line_path:
  "(\<forall>r. json_path text \<noteq> Inr (Some r)) \<Longrightarrow> parseAnalysisResponse text = line_path text"
  by (auto simp: parseAnalysisResponse_def split: sum.splits option.splits)


lemma scan_lines_snoc: "scan_lines (ls @ [line]) = scan_line (scan_lines ls) line"
  by (simp add: scan_lines_def)

lemma scan_lines_shape: "line_shape (snd (scan_lines ls))"
  unfolding scan_lines_def by (rule foldl_scan_line_shape) (simp add: line_shape_initial)

lemma scan_lines_drop_prefix:
  "list_all (\<lambda>l. \<not> has_label (trim l)) pre \<Longrightarrow> scan_lines (pre @ rest) = scan_lines rest"
  by (simp add: scan_lines_def foldl_scan_line_no_label)







text \<open>The result and the effect of a call of \<open>parseAnalysisResponse\<close>.\<close>

lemma parseAnalysisResponse_run_result:
  "fst (parseAnalysisResponse_run text w) = Inr (parseAnalysisResponse text)"
  by (simp add: parseAnalysisResponse_run_def parseAnalysisResponse_def split: sum.splits option.splits)


text \<open>
  Claim C3 (as amended). Every call of \<open>parseAnalysisResponse\<close> returns a result and
  throws nothing: the functions that model it are total (the tokenizer and the parser of
  \<open>JSON.parse\<close> by their termination proofs), and what the \<open>try\<close> block throws, the
  \<open>SyntaxError\<close> of \<open>JSON.parse\<close>, is caught and logged, after which the result is
  that of the scan over the lines. When the primary path returns nothing and no line
  begins with a label, the result is the initial one: the risk level Unknown, the four
  narrative fields the empty string, reply and score unset. The non-empty placeholders
  belong to the primary path only.
\<close>

theorem parse_degrades_to_line_scan:
  "(\<exists>r. fst (parseAnalysisResponse_run text w) = Inr r \<and> r = parseAnalysisResponse text)
   \<and> (\<forall>e. json_path text = Inl e \<longrightarrow>
         parseAnalysisResponse_run text w
           = (Inr (line_path text), console_error ''JSON parsing failed:'' e w))
   \<and> ((\<exists>e. json_path text = Inl e) \<longrightarrow> parseAnalysisResponse text = line_path text)
   \<and> ((\<forall>r. json_path text \<noteq> Inr (Some r))
        \<and> list_all (\<lambda>line. \<not> has_label (trim line)) (nonblank_lines text) \<longrightarrow>
        parseAnalysisResponse text = initial_result)
   \<and> riskLevel initial_result = JStr ''Unknown''
   \<and> reason initial_result = JStr []
   \<and> businessImpact initial_result = JStr []
   \<and> recommendedAction initial_result = JStr []
   \<and> businessInsight initial_result = JStr []
   \<and> suggestedReply initial_result = None
   \<and> leadQualityScore initial_result = None"
proof -
  have 0: "\<exists>r. fst (parseAnalysisResponse_run text w) = Inr r \<and> r = parseAnalysisResponse text"
    by (simp add: parseAnalysisResponse_run_result)
  have c: "\<forall>e. json_path text = Inl e \<longrightarrow>
         parseAnalysisResponse_run text w
           = (Inr (line_path text), console_error ''JSON parsing failed:'' e w)"
    by (simp add: parseAnalysisResponse_run_def)
  have 1: "(\<exists>e. json_path text = Inl e) \<longrightarrow> parseAnalysisResponse text = line_path text"
    by (auto simp: parseAnalysisResponse_def)
  have 2: "(\<forall>r. json_path text \<noteq> Inr (Some r))
        \<and> list_all (\<lambda>line. \<not> has_label (trim line)) (nonblank_lines text) \<longrightarrow>
        parseAnalysisResponse text = initial_result"
    by (auto simp: parse_line_path line_path_no_label)
  from 0 c 1 2 show ?thesis by (simp add: initial_result_def)
qed

theorem parse_degrades_to_line_scan_witness:
  "json_path ''{oops} and prose'' = Inl SyntaxError
   \<and> parseAnalysisResponse_run ''{oops} and prose'' \<lparr>console = [], env = Map.empty\<rparr>
       = (Inr initial_result, \<lparr>console = [(''JSON parsing failed:'', SyntaxError)], env = Map.empty\<rparr>)
   \<and> parseAnalysisResponse ''{oops} and prose'' = line_path ''{oops} and prose''
   \<and> parseAnalysisResponse ''{oops} and prose'' = initial_result"
proof -
  let ?t = "''{oops} and prose''"
  let ?w = "\<lparr>console = [], env = Map.empty\<rparr>"
  have j: "json_path ?t = Inl SyntaxError" by code_simp
  have l: "list_all (\<lambda>line. \<not> has_label (trim line)) (nonblank_lines ?t)" by code_simp
  from j have n: "\<forall>r. json_path ?t \<noteq> Inr (Some r)" by simp
  from parse_degrades_to_line_scan[of ?t ?w] j l n
  have 1: "parseAnalysisResponse ?t = line_path ?t"
    and 2: "parseAnalysisResponse ?t = initial_result"
    and 3: "parseAnalysisResponse_run ?t ?w
           = (Inr (line_path ?t), console_error ''JSON parsing failed:'' SyntaxError ?w)"
    by blast+
  from 1 2 have "line_path ?t = initial_result" by simp
  with 3 have "parseAnalysisResponse_run ?t ?w
       = (Inr initial_result, \<lparr>console = [(''JSON parsing failed:'', SyntaxError)], env = Map.empty\<rparr>)"
    by (simp add: console_error_def)
  with j 1 2 show ?thesis by blast
qed

text \<open>
  The claim promises the non-empty placeholders in that case; the code leaves the four
  fields empty.
\<close>

theorem parse_defaults_counterexample:
  "json_path ''no labels here'' = Inr None
   \<and> list_all (\<lambda>line. \<not> has_label (trim line)) (nonblank_lines ''no labels here'')
   \<and> reason (parseAnalysisResponse ''no labels here'') = JStr []
   \<and> businessImpact (parseAnalysisResponse ''no labels here'') = JStr []
   \<and> recommendedAction (parseAnalysisResponse ''no labels here'') = JStr []
   \<and> businessInsight (parseAnalysisResponse ''no labels here'') = JStr []"
proof -
  let ?t = "''no labels here''"
  have j: "json_path ?t = Inr None" by code_simp
  have l: "list_all (\<lambda>line. \<not> has_label (trim line)) (nonblank_lines ?t)" by code_simp
  from j have "parseAnalysisResponse ?t = line_path ?t" by (simp add: parseAnalysisResponse_def)
  with l have "parseAnalysisResponse ?t = initial_result" by (simp add: line_path_no_label)
  with j l show ?thesis by (simp add: initial_result_def)
qed



text \<open>
  Claim C7 (as amended). In the scan over the lines, take a non-blank line that begins
  with no label, after any lines \<open>ls\<close>. Without a cursor the line is discarded. With
  the cursor on \<open>suggestedReply\<close> the trimmed line is appended to the reply so far (the
  empty string when it is unset), joined by a line feed. With the cursor on one of the
  five other string fields the trimmed line is appended to that field, joined by one
  space. With the cursor on \<open>leadQualityScore\<close>, which is no string, the line is
  discarded. The cursor stays. And all lines before the first line with a label are
  discarded.
\<close>

theorem continuation_line:
  assumes "trim line \<noteq> []" and "\<not> has_label (trim line)"
  shows "(let before = scan_lines ls; after = scan_lines (ls @ [line]); r = snd before;
              trimmed = trim line
          in case fst before of
               None \<Rightarrow> after = before
             | Some f \<Rightarrow>
                 fst after = Some f
                 \<and> (if f = F_suggestedReply then
                      \<exists>current. (suggestedReply r = Some (JStr current)
                                  \<or> suggestedReply r = None \<and> current = [])
                        \<and> snd after = r\<lparr>suggestedReply := Some (JStr (current @ [CHR 0x0A] @ trimmed))\<rparr>
                    else if f = F_leadQualityScore then snd after = r
                    else \<exists>current. get_field r f = Some (JStr current)
                        \<and> snd after = set_field r f (JStr (current @ '' '' @ trimmed))))
         \<and> (list_all (\<lambda>l. \<not> has_label (trim l)) pre \<longrightarrow> scan_lines (pre @ rest) = scan_lines rest)"
proof -
  obtain cur r where b: "scan_lines ls = (cur, r)" by (cases "scan_lines ls")
  from scan_lines_shape[of ls] b have sh: "line_shape r" by simp
  have a: "scan_lines (ls @ [line]) =
     (case cur of Some f \<Rightarrow> (cur, continue_field f r (trim line)) | None \<Rightarrow> (cur, r))"
    unfolding scan_lines_snoc b scan_line_no_label[OF assms(2)] using assms(1) by (cases cur) simp_all
  have main: "case cur of
               None \<Rightarrow> scan_lines (ls @ [line]) = (cur, r)
             | Some f \<Rightarrow>
                 fst (scan_lines (ls @ [line])) = Some f
                 \<and> (if f = F_suggestedReply then
                      \<exists>current. (suggestedReply r = Some (JStr current)
                                  \<or> suggestedReply r = None \<and> current = [])
                        \<and> snd (scan_lines (ls @ [line])) = r\<lparr>suggestedReply := Some (JStr (current @ [CHR 0x0A] @ trim line))\<rparr>
                    else if f = F_leadQualityScore then snd (scan_lines (ls @ [line])) = r
                    else \<exists>current. get_field r f = Some (JStr current)
                        \<and> snd (scan_lines (ls @ [line])) = set_field r f (JStr (current @ '' '' @ trim line)))"
  proof (cases cur)
    case None
    with a show ?thesis by simp
  next
    case (Some f)
    show ?thesis
    proof (cases f)
      case F_suggestedReply
      with Some a sh show ?thesis
        by (auto simp: continue_field_def line_shape_def)
    next
      case F_leadQualityScore
      with Some a sh show ?thesis
        by (auto simp: continue_field_def line_shape_def)
    qed (use Some a sh in \<open>auto simp: continue_field_def line_shape_def\<close>)
  qed
  show ?thesis
    unfolding Let_def b fst_conv snd_conv
    by (intro conjI impI) (rule main, erule scan_lines_drop_prefix)
qed

theorem continuation_line_witness:
  "reason (snd (scan_lines [''Reason: a'', '' b ''])) = JStr ''a b''
   \<and> scan_lines [''preamble'', ''Reason: a''] = scan_lines [''Reason: a'']"
proof -
  have 1: "trim '' b '' \<noteq> []" "\<not> has_label (trim '' b '')" by code_simp+
  have 2: "list_all (\<lambda>l. \<not> has_label (trim l)) [''preamble'']" by code_simp
  have 3: "scan_lines [''Reason: a''] = (Some F_reason, initial_result\<lparr>reason := JStr ''a''\<rparr>)"
    by code_simp
  have 4: "trim '' b '' = ''b''" by code_simp
  from continuation_line[OF 1, of "[''Reason: a'']" "[''preamble'']" "[''Reason: a'']"] 2 3 4
  show ?thesis by (auto simp: Let_def)
qed

text \<open>
  The claim as stated has every line under an active cursor appended; under the cursor
  of the score it is dropped.
\<close>

theorem continuation_line_counterexample:
  "fst (scan_lines [''Lead Quality Score: 7'']) = Some F_leadQualityScore
   \<and> trim ''extra'' \<noteq> [] \<and> \<not> has_label (trim ''extra'')
   \<and> scan_lines [''Lead Quality Score: 7'', ''extra''] = scan_lines [''Lead Quality Score: 7'']
   \<and> parseAnalysisResponse (''Lead Quality Score: 7'' @ [CHR 0x0A] @ ''extra'')
       = parseAnalysisResponse ''Lead Quality Score: 7''"
proof -
  have 1: "scan_lines [''Lead Quality Score: 7''] = (Some F_leadQualityScore, initial_result\<lparr>leadQualityScore := Some (JNum 7)\<rparr>)"
    by code_simp
  have 2: "scan_lines [''Lead Quality Score: 7'', ''extra''] = (Some F_leadQualityScore, initial_result\<lparr>leadQualityScore := Some (JNum 7)\<rparr>)"
    by code_simp
  have 3: "trim ''extra'' \<noteq> []" "\<not> has_label (trim ''extra'')" by code_simp+
  have 4: "parseAnalysisResponse (''Lead Quality Score: 7'' @ [CHR 0x0A] @ ''extra'') = initial_result\<lparr>leadQualityScore := Some (JNum 7)\<rparr>"
    by code_simp
  have 5: "parseAnalysisResponse ''Lead Quality Score: 7'' = initial_result\<lparr>leadQualityScore := Some (JNum 7)\<rparr>"
    by code_simp
  from 1 2 3 4 5 show ?thesis by simp
qed


text \<open>
  The round trip. The lexer reads back what \<open>quote\<close> writes, the tokens of a
  serialised result are those of its fields, and the parser rebuilds the object.
\<close>

lemma hex_val_hex_digit: "d < 16 \<Longrightarrow> hex_val (hex_digit d) = Some d"
proof -
  assume "d < 16"
  then have "d \<in> {0,1,2,3,4,5,6,7,8,9,10,11,12,13,14,15}" by (simp, arith)
  then show ?thesis
    by (auto simp: hex_val_def hex_digit_def Let_def)
qed

lemma hex4_zero: "hex_val (CHR ''0'') = Some 0"
  by (simp add: hex_val_def)

lemma lex_string_quote_char:
  "lex_string acc (quote_char c @ rest) = lex_string (of_char c # acc) rest"
proof -
  consider (q) "c = CHR 0x22" | (b) "c = CHR 0x5C"
    | (s) "c \<in> {CHR 0x08, CHR 0x0C, CHR 0x0A, CHR 0x0D, CHR 0x09}"
    | (u) "c \<notin> {CHR 0x22, CHR 0x5C, CHR 0x08, CHR 0x0C, CHR 0x0A, CHR 0x0D, CHR 0x09}" "(of_char c :: nat) < 32"
    | (o) "c \<notin> {CHR 0x22, CHR 0x5C, CHR 0x08, CHR 0x0C, CHR 0x0A, CHR 0x0D, CHR 0x09}" "\<not> (of_char c :: nat) < 32"
    by blast
  then show ?thesis
  proof cases
    case q
    then show ?thesis by (simp add: quote_char_def simple_escape_def)
  next
    case b
    then show ?thesis by (simp add: quote_char_def simple_escape_def)
  next
    case s
    then show ?thesis by (auto simp: quote_char_def simple_escape_def)
  next
    case u
    let ?n = "of_char c :: nat"
    from u(2) have d: "?n div 16 < 16" "?n mod 16 < 16" by auto
    from u(2) have "((0 * 16 + 0) * 16 + ?n div 16) * 16 + ?n mod 16 = ?n" by simp
    then have h: "hex4 (CHR ''0'') (CHR ''0'') (hex_digit (?n div 16)) (hex_digit (?n mod 16)) = Some ?n"
      by (simp add: hex4_def hex4_zero hex_val_hex_digit[OF d(1)] hex_val_hex_digit[OF d(2)])
    from u have "quote_char c = [CHR 0x5C, CHR ''u'', CHR ''0'', CHR ''0'', hex_digit (?n div 16), hex_digit (?n mod 16)]"
      by (simp add: quote_char_def)
    with h show ?thesis by simp
  next
    case o
    then show ?thesis by (simp add: quote_char_def)
  qed
qed

lemma lex_string_quoted:
  "lex_string acc (concat (map quote_char s) @ CHR 0x22 # rest) = Some (rev acc @ code_units s, rest)"
  by (induction s arbitrary: acc) (simp_all add: lex_string_quote_char code_units_Cons)

lemma tokenize_quote:
  "tokenize (quote s @ rest) = map_option ((#) (TString (code_units s))) (tokenize rest)"
  by (simp add: quote_def is_json_ws_def lex_string_quoted)

lemma tokenize_colon: "tokenize (CHR '':'' # cs) = map_option ((#) Colon) (tokenize cs)"
  by (simp add: is_json_ws_def)

lemma tokenize_comma: "tokenize (CHR '','' # cs) = map_option ((#) Comma) (tokenize cs)"
  by (simp add: is_json_ws_def)

lemma tokenize_lbrace: "tokenize (CHR ''{'' # cs) = map_option ((#) LBrace) (tokenize cs)"
  by (simp add: is_json_ws_def)

lemma tokenize_rbrace_end: "tokenize [CHR ''}''] = Some [RBrace]"
  by (simp add: is_json_ws_def)

lemma string_of_small:
  "string_of_nat 0 = ''0''" "string_of_nat 1 = ''1''" "string_of_nat 2 = ''2''" "string_of_nat 3 = ''3''"
  "string_of_nat 4 = ''4''" "string_of_nat 5 = ''5''" "string_of_nat 6 = ''6''" "string_of_nat 7 = ''7''"
  "string_of_nat 8 = ''8''" "string_of_nat 9 = ''9''" "string_of_nat 10 = ''10''"
  "string_of_nat (Suc 0) = ''1''"
  by code_simp+

lemma lex_number_small:
  assumes "n \<le> 10"
  shows "lex_number (string_of_nat n @ CHR '','' # rest) = Some (Finite (of_nat n), CHR '','' # rest)"
proof -
  from assms have "n \<in> {0,1,2,3,4,5,6,7,8,9,10}" by (simp, arith)
  then show ?thesis
    by (auto simp: string_of_small lex_number_def lex_int_part_def lex_frac_part_def lex_exp_part_def
        is_digit_def digit_val_def scale10_def Let_def to_double_upto_10)
qed

lemma tokenize_small_number:
  assumes "n \<le> 10"
  shows "tokenize (string_of_nat n @ CHR '','' # rest)
         = map_option ((#) (TNumber (Finite (of_nat n)))) (tokenize (CHR '','' # rest))"
proof -
  from assms have "n \<in> {0,1,2,3,4,5,6,7,8,9,10}" by (simp, arith)
  then obtain d ds where s: "string_of_nat n = d # ds" "is_digit d"
    "\<not> is_json_ws d" "d \<notin> {CHR ''{'', CHR ''}'', CHR ''['', CHR '']'', CHR '':'', CHR '','', CHR 0x22}"
    by (auto simp: string_of_small is_digit_def is_json_ws_def)
  from lex_number_small[OF assms, of rest] s
  have "lex_number (d # ds @ CHR '','' # rest) = Some (Finite (of_nat n), CHR '','' # rest)" by simp
  with s show ?thesis
    by (simp del: tokenize.simps add: tokenize.simps(2)[of d])
qed

lemma match_braces_whole:
  "match_braces (CHR ''{'' # body @ [CHR ''}'']) = Some (CHR ''{'' # body @ [CHR ''}''])"
  by (simp add: match_braces_def)

lemma nonempty_string_iff: "nonempty_string v \<longleftrightarrow> (\<exists>s. s \<noteq> [] \<and> v = JStr s)"
  by (cases v) auto

lemma or_default_string: "s \<noteq> [] \<Longrightarrow> or_default (Some (JStr s)) d = JStr s"
  by (simp add: or_default_def)

lemma or_default_score: "or_default (Some (JNum (of_nat n))) (JNum 0) = JNum (of_nat n)"
  by (cases "n = 0") (simp_all add: or_default_def)

lemma or_undefined_string: "s \<noteq> [] \<Longrightarrow> or_undefined (Some (JStr s)) = Some (JStr s)"
  by (simp add: or_undefined_def)

lemma roundtrip_without_reply:
  assumes "rl \<noteq> []" "a \<noteq> []" "b \<noteq> []" "c \<noteq> []" "e \<noteq> []" "n \<le> 10"
  defines "r \<equiv> \<lparr> riskLevel = JStr rl, reason = JStr a, businessImpact = JStr b,
                  recommendedAction = JStr c, suggestedReply = None,
                  leadQualityScore = Some (JNum (of_nat n)), businessInsight = JStr e \<rparr>"
  shows "\<exists>t. serialize r = Some t \<and> json_path t = Inr (Some r) \<and> parseAnalysisResponse t = r"
proof -
  let ?body = "quote ''riskLevel'' @ CHR '':'' # quote rl @ CHR '','' #
               quote ''reason'' @ CHR '':'' # quote a @ CHR '','' #
               quote ''businessImpact'' @ CHR '':'' # quote b @ CHR '','' #
               quote ''recommendedAction'' @ CHR '':'' # quote c @ CHR '','' #
               quote ''leadQualityScore'' @ CHR '':'' # string_of_nat n @ CHR '','' #
               quote ''businessInsight'' @ CHR '':'' # quote e"
  let ?t = "CHR ''{'' # ?body @ [CHR ''}'']"
  let ?ms = "[(code_units ''riskLevel'', JStr rl), (code_units ''reason'', JStr a),
              (code_units ''businessImpact'', JStr b), (code_units ''recommendedAction'', JStr c),
              (code_units ''leadQualityScore'', JNum (of_nat n)),
              (code_units ''businessInsight'', JStr e)]"
  have ser: "serialize r = Some ?t"
    by (simp add: serialize_def r_def stringify_object_def stringify_member_def)
  have tok: "tokenize ?t = Some [LBrace,
               TString (code_units ''riskLevel''), Colon, TString (code_units rl), Comma,
               TString (code_units ''reason''), Colon, TString (code_units a), Comma,
               TString (code_units ''businessImpact''), Colon, TString (code_units b), Comma,
               TString (code_units ''recommendedAction''), Colon, TString (code_units c), Comma,
               TString (code_units ''leadQualityScore''), Colon, TNumber (Finite (of_nat n)), Comma,
               TString (code_units ''businessInsight''), Colon, TString (code_units e), RBrace]"
    by (simp del: tokenize.simps
        add: tokenize_quote tokenize_colon tokenize_comma tokenize_lbrace tokenize_rbrace_end
          tokenize_small_number[OF assms(6)])
  have par: "JSON_parse ?t = Inr (JObj ?ms)"
    unfolding JSON_parse_def tok by (simp add: parse_members.simps number_def)
  have m: "match_braces ?t = Some ?t" by (rule match_braces_whole)
  have res: "result_of_parsed (JObj ?ms) = r"
    using assms(1-5)
    by (simp add: result_of_parsed_def r_def or_default_string or_default_score or_undefined_def)
  have "json_path ?t = Inr (Some r)"
    unfolding json_path_def m option.case par sum.case res by simp
  moreover have "parseAnalysisResponse ?t = r"
    using json_path_success[OF m par] res by simp
  ultimately show ?thesis using ser by blast
qed

lemma roundtrip_with_reply:
  assumes "rl \<noteq> []" "a \<noteq> []" "b \<noteq> []" "c \<noteq> []" "e \<noteq> []" "n \<le> 10" "sr \<noteq> []"
  defines "r \<equiv> \<lparr> riskLevel = JStr rl, reason = JStr a, businessImpact = JStr b,
                  recommendedAction = JStr c, suggestedReply = Some (JStr sr),
                  leadQualityScore = Some (JNum (of_nat n)), businessInsight = JStr e \<rparr>"
  shows "\<exists>t. serialize r = Some t \<and> json_path t = Inr (Some r) \<and> parseAnalysisResponse t = r"
proof -
  let ?body = "quote ''riskLevel'' @ CHR '':'' # quote rl @ CHR '','' #
               quote ''reason'' @ CHR '':'' # quote a @ CHR '','' #
               quote ''businessImpact'' @ CHR '':'' # quote b @ CHR '','' #
               quote ''recommendedAction'' @ CHR '':'' # quote c @ CHR '','' #
               quote ''suggestedReply'' @ CHR '':'' # quote sr @ CHR '','' #
               quote ''leadQualityScore'' @ CHR '':'' # string_of_nat n @ CHR '','' #
               quote ''businessInsight'' @ CHR '':'' # quote e"
  let ?t = "CHR ''{'' # ?body @ [CHR ''}'']"
  let ?ms = "[(code_units ''riskLevel'', JStr rl), (code_units ''reason'', JStr a),
              (code_units ''businessImpact'', JStr b), (code_units ''recommendedAction'', JStr c),
              (code_units ''suggestedReply'', JStr sr),
              (code_units ''leadQualityScore'', JNum (of_nat n)),
              (code_units ''businessInsight'', JStr e)]"
  have ser: "serialize r = Some ?t"
    by (simp add: serialize_def r_def stringify_object_def stringify_member_def)
  have tok: "tokenize ?t = Some [LBrace,
               TString (code_units ''riskLevel''), Colon, TString (code_units rl), Comma,
               TString (code_units ''reason''), Colon, TString (code_units a), Comma,
               TString (code_units ''businessImpact''), Colon, TString (code_units b), Comma,
               TString (code_units ''recommendedAction''), Colon, TString (code_units c), Comma,
               TString (code_units ''suggestedReply''), Colon, TString (code_units sr), Comma,
               TString (code_units ''leadQualityScore''), Colon, TNumber (Finite (of_nat n)), Comma,
               TString (code_units ''businessInsight''), Colon, TString (code_units e), RBrace]"
    by (simp del: tokenize.simps
        add: tokenize_quote tokenize_colon tokenize_comma tokenize_lbrace tokenize_rbrace_end
          tokenize_small_number[OF assms(6)])
  have par: "JSON_parse ?t = Inr (JObj ?ms)"
    unfolding JSON_parse_def tok by (simp add: parse_members.simps number_def)
  have m: "match_braces ?t = Some ?t" by (rule match_braces_whole)
  have res: "result_of_parsed (JObj ?ms) = r"
    using assms(1-5,7)
    by (simp add: result_of_parsed_def r_def or_default_string or_default_score or_undefined_string)
  have "json_path ?t = Inr (Some r)"
    unfolding json_path_def m option.case par sum.case res by simp
  moreover have "parseAnalysisResponse ?t = r"
    using json_path_success[OF m par] res by simp
  ultimately show ?thesis using ser by blast
qed

lemma valid_riskLevel_nonempty: "valid_riskLevel v \<Longrightarrow> \<exists>s. s \<noteq> [] \<and> v = JStr s"
  by (auto simp: valid_riskLevel_def)

text \<open>
  Claim C6 (as amended). For every valid result whose reply is unset or non-empty, the
  serialisation exists, the primary path of \<open>parseAnalysisResponse\<close> accepts it, and
  the result parsed back equals the original, field for field.
\<close>

theorem serialize_parse_roundtrip:
  assumes "valid_result r" and "suggestedReply r \<noteq> Some (JStr [])"
  shows "\<exists>t. serialize r = Some t \<and> json_path t = Inr (Some r) \<and> parseAnalysisResponse t = r"
proof -
  obtain v1 v2 v3 v4 o5 o6 v7 where r: "r = \<lparr> riskLevel = v1, reason = v2, businessImpact = v3,
       recommendedAction = v4, suggestedReply = o5, leadQualityScore = o6, businessInsight = v7 \<rparr>"
    by (cases r) auto
  from assms(1) obtain rl a b c e n where
    f: "rl \<noteq> []" "v1 = JStr rl" "a \<noteq> []" "v2 = JStr a" "b \<noteq> []" "v3 = JStr b"
       "c \<noteq> []" "v4 = JStr c" "e \<noteq> []" "v7 = JStr e" "n \<le> 10" "o6 = Some (JNum (of_nat n))"
    unfolding valid_result_def r nonempty_string_iff
    by (auto dest: valid_riskLevel_nonempty)
  from assms have "o5 = None \<or> (\<exists>sr. sr \<noteq> [] \<and> o5 = Some (JStr sr))"
    unfolding valid_result_def r by auto
  then show ?thesis
  proof
    assume "o5 = None"
    with roundtrip_without_reply[OF f(1,3,5,7,9,11)] show ?thesis
      unfolding r f by simp
  next
    assume "\<exists>sr. sr \<noteq> [] \<and> o5 = Some (JStr sr)"
    then obtain sr where "sr \<noteq> []" "o5 = Some (JStr sr)" by blast
    with roundtrip_with_reply[OF f(1,3,5,7,9,11), of sr] show ?thesis
      unfolding r f by simp
  qed
qed

theorem serialize_parse_roundtrip_witness:
  "valid_result \<lparr> riskLevel = JStr ''Safe'', reason = JStr ''a b'', businessImpact = JStr ''c'',
       recommendedAction = JStr ''d'', suggestedReply = Some (JStr ''e''),
       leadQualityScore = Some (JNum 7), businessInsight = JStr ''f'' \<rparr>
   \<and> parseAnalysisResponse
        ''{\"riskLevel\":\"Safe\",\"reason\":\"a b\",\"businessImpact\":\"c\",\"recommendedAction\":\"d\",\"suggestedReply\":\"e\",\"leadQualityScore\":7,\"businessInsight\":\"f\"}''
     = \<lparr> riskLevel = JStr ''Safe'', reason = JStr ''a b'', businessImpact = JStr ''c'',
         recommendedAction = JStr ''d'', suggestedReply = Some (JStr ''e''),
         leadQualityScore = Some (JNum 7), businessInsight = JStr ''f'' \<rparr>"
proof -
  let ?r = "\<lparr> riskLevel = JStr ''Safe'', reason = JStr ''a b'', businessImpact = JStr ''c'',
       recommendedAction = JStr ''d'', suggestedReply = Some (JStr ''e''),
       leadQualityScore = Some (JNum 7), businessInsight = JStr ''f'' \<rparr>"
  have "\<exists>n::nat. n \<le> 10 \<and> Some (JNum 7) = Some (JNum (of_nat n))" by (rule exI[of _ 7]) simp
  then have v: "valid_result ?r" by (simp add: valid_result_def valid_riskLevel_def)
  have n: "suggestedReply ?r \<noteq> Some (JStr [])" by simp
  have s: "serialize ?r = Some ''{\"riskLevel\":\"Safe\",\"reason\":\"a b\",\"businessImpact\":\"c\",\"recommendedAction\":\"d\",\"suggestedReply\":\"e\",\"leadQualityScore\":7,\"businessInsight\":\"f\"}''"
    by code_simp
  from serialize_parse_roundtrip[OF v n] s v show ?thesis by auto
qed

text \<open>
  A reply that is set to the empty string does not come back: the primary path turns the
  falsy value into an unset field.
\<close>

theorem serialize_parse_roundtrip_counterexample:
  "valid_result \<lparr> riskLevel = JStr ''Safe'', reason = JStr ''a'', businessImpact = JStr ''c'',
       recommendedAction = JStr ''d'', suggestedReply = Some (JStr []),
       leadQualityScore = Some (JNum 0), businessInsight = JStr ''f'' \<rparr>
   \<and> serialize \<lparr> riskLevel = JStr ''Safe'', reason = JStr ''a'', businessImpact = JStr ''c'',
       recommendedAction = JStr ''d'', suggestedReply = Some (JStr []),
       leadQualityScore = Some (JNum 0), businessInsight = JStr ''f'' \<rparr>
     = Some ''{\"riskLevel\":\"Safe\",\"reason\":\"a\",\"businessImpact\":\"c\",\"recommendedAction\":\"d\",\"suggestedReply\":\"\",\"leadQualityScore\":0,\"businessInsight\":\"f\"}''
   \<and> suggestedReply (parseAnalysisResponse
        ''{\"riskLevel\":\"Safe\",\"reason\":\"a\",\"businessImpact\":\"c\",\"recommendedAction\":\"d\",\"suggestedReply\":\"\",\"leadQualityScore\":0,\"businessInsight\":\"f\"}'')
     = None
   \<and> parseAnalysisResponse
        ''{\"riskLevel\":\"Safe\",\"reason\":\"a\",\"businessImpact\":\"c\",\"recommendedAction\":\"d\",\"suggestedReply\":\"\",\"leadQualityScore\":0,\"businessInsight\":\"f\"}''
     \<noteq> \<lparr> riskLevel = JStr ''Safe'', reason = JStr ''a'', businessImpact = JStr ''c'',
       recommendedAction = JStr ''d'', suggestedReply = Some (JStr []),
       leadQualityScore = Some (JNum 0), businessInsight = JStr ''f'' \<rparr>"
proof -
  have "\<exists>n::nat. n \<le> 10 \<and> Some (JNum 0) = Some (JNum (of_nat n))" by (rule exI[of _ 0]) simp
  then have v: "valid_result \<lparr> riskLevel = JStr ''Safe'', reason = JStr ''a'', businessImpact = JStr ''c'',
       recommendedAction = JStr ''d'', suggestedReply = Some (JStr []),
       leadQualityScore = Some (JNum 0), businessInsight = JStr ''f'' \<rparr>"
    by (simp add: valid_result_def valid_riskLevel_def)
  have s: "serialize \<lparr> riskLevel = JStr ''Safe'', reason = JStr ''a'', businessImpact = JStr ''c'',
       recommendedAction = JStr ''d'', suggestedReply = Some (JStr []),
       leadQualityScore = Some (JNum 0), businessInsight = JStr ''f'' \<rparr>
     = Some ''{\"riskLevel\":\"Safe\",\"reason\":\"a\",\"businessImpact\":\"c\",\"recommendedAction\":\"d\",\"suggestedReply\":\"\",\"leadQualityScore\":0,\"businessInsight\":\"f\"}''"
    by code_simp
  have p: "suggestedReply (parseAnalysisResponse
        ''{\"riskLevel\":\"Safe\",\"reason\":\"a\",\"businessImpact\":\"c\",\"recommendedAction\":\"d\",\"suggestedReply\":\"\",\"leadQualityScore\":0,\"businessInsight\":\"f\"}'')
     = None"
    by code_simp
  from p have q: "parseAnalysisResponse
        ''{\"riskLevel\":\"Safe\",\"reason\":\"a\",\"businessImpact\":\"c\",\"recommendedAction\":\"d\",\"suggestedReply\":\"\",\"leadQualityScore\":0,\"businessInsight\":\"f\"}''
     \<noteq> \<lparr> riskLevel = JStr ''Safe'', reason = JStr ''a'', businessImpact = JStr ''c'',
       recommendedAction = JStr ''d'', suggestedReply = Some (JStr []),
       leadQualityScore = Some (JNum 0), businessInsight = JStr ''f'' \<rparr>"
    by auto
  from v s p q show ?thesis by blast
qed


end
